theory Spec2Isabelle
  imports Main "HOL-Library.Sublist"
begin

section \<open>JavaScript primitives used by the sources\<close>

text \<open>
  Strings are lists of characters.  Numbers that the sources use as counters, sizes and
  clock readings are natural numbers; a parsed timestamp is an integer (it can carry a
  sign); the value \<open>NaN\<close> of \<open>parseInt\<close> is \<open>None\<close>.  JavaScript numbers are
  doubles, which are exact on integers below \<open>2^53\<close>: the model computes on the
  integers and is exact on that range, which the statements about the timestamp of a
  request assume of the numbers they compare (\<open>exactAt\<close> below).
\<close>

definition digitValue :: "char \<Rightarrow> nat option" where
  "digitValue c =
     (let n = (of_char c :: nat) in
      if 48 \<le> n \<and> n \<le> 57 then Some (n - 48)
      else if 97 \<le> n \<and> n \<le> 122 then Some (n - 87)
      else if 65 \<le> n \<and> n \<le> 90 then Some (n - 55)
      else None)"

definition isRadixDigit :: "nat \<Rightarrow> char \<Rightarrow> bool" where
  "isRadixDigit radix c = (case digitValue c of None \<Rightarrow> False | Some v \<Rightarrow> v < radix)"

definition digitNat :: "char \<Rightarrow> nat" where
  "digitNat c = (case digitValue c of None \<Rightarrow> 0 | Some v \<Rightarrow> v)"

definition isWhiteSpace :: "char \<Rightarrow> bool" where
  "isWhiteSpace c = ((of_char c :: nat) \<in> {9, 10, 11, 12, 13, 32, 160})"

text \<open>
  \<open>parseInt(s, radix)\<close> for a radix of 10 or 16: leading white space is skipped, one
  sign is read, with radix 16 a prefix \<open>0x\<close> is skipped, then the longest run of digits
  of the radix is read; no digit at all gives \<open>NaN\<close>.  Whatever follows the digits is
  ignored.
\<close>

definition parseInt :: "string \<Rightarrow> nat \<Rightarrow> int option" where
  "parseInt s radix =
     (let S = dropWhile isWhiteSpace s;
          sign = (if S \<noteq> [] \<and> hd S = CHR ''-'' then - 1 else (1::int));
          S1 = (if S \<noteq> [] \<and> (hd S = CHR ''+'' \<or> hd S = CHR ''-'') then tl S else S);
          S2 = (if radix = 16 \<and> (take 2 S1 = ''0x'' \<or> take 2 S1 = ''0X'')
                then drop 2 S1 else S1);
          Z = takeWhile (isRadixDigit radix) S2
      in if Z = [] then None
         else Some (sign * int (foldl (\<lambda>a c. a * radix + digitNat c) 0 Z)))"

text \<open>\<open>n.toString(2)\<close> on a non-negative integer, and \<open>s.padStart(n, c)\<close>.\<close>

fun toString2 :: "nat \<Rightarrow> string" where
  "toString2 n =
     (if n < 2 then [if n = 0 then CHR ''0'' else CHR ''1'']
      else toString2 (n div 2) @ [if n mod 2 = 0 then CHR ''0'' else CHR ''1''])"

declare toString2.simps [simp del]

definition padStart :: "nat \<Rightarrow> char \<Rightarrow> string \<Rightarrow> string" where
  "padStart n c s = replicate (n - length s) c @ s"

text \<open>\<open>s[i]\<close>: the character at an index, \<open>undefined\<close> (here \<open>None\<close>) out of range.\<close>

definition charAt :: "string \<Rightarrow> nat \<Rightarrow> char option" where
  "charAt s i = (if i < length s then Some (s ! i) else None)"

section \<open>CryptoUtils (src/utils/crypto.ts)\<close>

subsection \<open>hasLeadingZeros\<close>

text \<open>
  The four characters one character of the hash adds to \<open>binary\<close>:
  \<open>parseInt(hash[i], 16).toString(2).padStart(4, '0')\<close>.  A character that is no
  hexadecimal digit parses to \<open>NaN\<close>, whose string is \<open>NaN\<close>, padded to \<open>0NaN\<close>.
\<close>

definition nibble :: "char \<Rightarrow> string" where
  "nibble c =
     padStart 4 (CHR ''0'')
       (case parseInt [c] 16 of None \<Rightarrow> ''NaN'' | Some v \<Rightarrow> toString2 (nat v))"

text \<open>The first loop: \<open>binary += nibble\<close> for every character of the hash.\<close>

definition binaryString :: "string \<Rightarrow> string" where
  "binaryString hash = foldl (\<lambda>binary c. binary @ nibble c) [] hash"

text \<open>
  The second loop, \<open>for (let i = 0; i < difficulty; i++)\<close>, from index \<open>i\<close> on: it
  returns false at the first index whose character is not \<open>0\<close> (an index past the end
  reads \<open>undefined\<close>, which is not \<open>0\<close> either) and true when it runs out.
\<close>

function leadingZerosFrom :: "string \<Rightarrow> nat \<Rightarrow> nat \<Rightarrow> bool" where
  "leadingZerosFrom binary difficulty i =
     (if i < difficulty then
        (if charAt binary i \<noteq> Some (CHR ''0'') then False
         else leadingZerosFrom binary difficulty (Suc i))
      else True)"
  by pat_completeness auto
termination
  by (relation "measure (\<lambda>(binary, difficulty, i). difficulty - i)") auto

declare leadingZerosFrom.simps [simp del]

definition hasLeadingZeros :: "string \<Rightarrow> nat \<Rightarrow> bool" where
  "hasLeadingZeros hash difficulty = leadingZerosFrom (binaryString hash) difficulty 0"

text \<open>The character that \<open>toString(2)\<close> writes for one bit.\<close>

definition bitChar :: "bool \<Rightarrow> char" where
  "bitChar b = (if b then CHR ''1'' else CHR ''0'')"

subsection \<open>The difficulty check as the specification words it\<close>

text \<open>
  The specification reads a digest as a sequence of 4-bit nibbles, one per hexadecimal
  character, concatenated into a bit string (most significant bit first), and asks that
  the first \<open>difficultyBits\<close> bits exist and are all zero.
\<close>

definition isHexDigest :: "string \<Rightarrow> bool" where
  "isHexDigest d = list_all (isRadixDigit 16) d"

definition nibbleBits :: "char \<Rightarrow> bool list" where
  "nibbleBits c =
     (let v = digitNat c in [odd (v div 8), odd (v div 4), odd (v div 2), odd v])"

definition digestBits :: "string \<Rightarrow> bool list" where
  "digestBits d = concat (map nibbleBits d)"

definition satisfies_spec :: "string \<Rightarrow> nat \<Rightarrow> bool" where
  "satisfies_spec d b = (take b (digestBits d) = replicate b False)"


section \<open>Configuration (src/config.ts)\<close>

text \<open>
  A property of an object the user passes is absent, present with the value
  \<open>undefined\<close>, or present with a value of its type.  Reading a property of the merged
  configuration gives \<open>None\<close> for \<open>undefined\<close>.
\<close>

datatype 'a supplied = Absent | Undefined | Value 'a

datatype cache_type = Memory | DurableObject | KV

datatype context_generator = UserAgent | IpUserAgent | Custom

datatype hmac_algorithm = Sha256 | Sha512

datatype request_integration = Fetch | Axios | Xhr

datatype server_framework = Express | Fastify | Koa

record client_options =
  opt_maxRetries :: "nat supplied"
  opt_requestIntegration :: "request_integration supplied"

record cloudflare_options =
  opt_rateLimiting :: "bool supplied"
  opt_requestsPerMinute :: "nat supplied"

record server_options =
  opt_framework :: "server_framework supplied"
  opt_strictMode :: "bool supplied"

record user_config =
  opt_endpoints :: "string list supplied"
  opt_secret :: "string supplied"
  opt_difficulty :: "nat supplied"
  opt_timestampTolerance :: "nat supplied"
  opt_cacheType :: "cache_type supplied"
  opt_cacheSize :: "nat supplied"
  opt_contextGenerator :: "context_generator supplied"
  opt_hmacAlgorithm :: "hmac_algorithm supplied"
  opt_client :: "client_options supplied"
  opt_cloudflare :: "cloudflare_options supplied"
  opt_server :: "server_options supplied"

record client_config =
  maxRetries :: "nat option"
  requestIntegration :: "request_integration option"

record cloudflare_config =
  rateLimiting :: "bool option"
  requestsPerMinute :: "nat option"

record server_config =
  framework :: "server_framework option"
  strictMode :: "bool option"

record config =
  endpoints :: "string list option"
  secret :: "string option"
  difficulty :: "nat option"
  timestampTolerance :: "nat option"
  cacheType :: "cache_type option"
  cacheSize :: "nat option"
  contextGenerator :: "context_generator option"
  hmacAlgorithm :: "hmac_algorithm option"
  client :: client_config
  cloudflare :: cloudflare_config
  server :: server_config

definition DEFAULT_CONFIG :: config where
  "DEFAULT_CONFIG =
     \<lparr>endpoints = None, secret = None, difficulty = Some 4, timestampTolerance = Some 30,
      cacheType = Some Memory, cacheSize = Some 10000, contextGenerator = Some UserAgent,
      hmacAlgorithm = Some Sha256,
      client = \<lparr>maxRetries = Some 5, requestIntegration = Some Fetch\<rparr>,
      cloudflare = \<lparr>rateLimiting = Some True, requestsPerMinute = Some 30\<rparr>,
      server = \<lparr>framework = Some Express, strictMode = Some True\<rparr>\<rparr>"

text \<open>
  One key of a merge: a key the user's object does not have keeps the default, a key it
  has overwrites it, also with \<open>undefined\<close>.
\<close>

definition mergeProp :: "'a option \<Rightarrow> 'a supplied \<Rightarrow> 'a option" where
  "mergeProp d p = (case p of Absent \<Rightarrow> d | Undefined \<Rightarrow> None | Value v \<Rightarrow> Some v)"

datatype caller = ClientContext | ServerContext | CloudflareContext

datatype error = Error string

text \<open>
  \<open>validateAndMergeConfig(config, context = 'client')\<close>.  The nested objects are merged
  only when the user gives one; \<open>!x\<close> holds of \<open>undefined\<close>, of the empty string and
  of no array.
\<close>

definition mergeConfig :: "user_config option \<Rightarrow> config" where
  "mergeConfig cfg =
     (case cfg of
        None \<Rightarrow> DEFAULT_CONFIG
      | Some c \<Rightarrow>
          \<lparr>endpoints = mergeProp (endpoints DEFAULT_CONFIG) (opt_endpoints c),
           secret = mergeProp (secret DEFAULT_CONFIG) (opt_secret c),
           difficulty = mergeProp (difficulty DEFAULT_CONFIG) (opt_difficulty c),
           timestampTolerance =
             mergeProp (timestampTolerance DEFAULT_CONFIG) (opt_timestampTolerance c),
           cacheType = mergeProp (cacheType DEFAULT_CONFIG) (opt_cacheType c),
           cacheSize = mergeProp (cacheSize DEFAULT_CONFIG) (opt_cacheSize c),
           contextGenerator =
             mergeProp (contextGenerator DEFAULT_CONFIG) (opt_contextGenerator c),
           hmacAlgorithm = mergeProp (hmacAlgorithm DEFAULT_CONFIG) (opt_hmacAlgorithm c),
           client =
             (case opt_client c of
                Value given \<Rightarrow>
                  \<lparr>maxRetries =
                     mergeProp (maxRetries (client DEFAULT_CONFIG)) (opt_maxRetries given),
                   requestIntegration =
                     mergeProp (requestIntegration (client DEFAULT_CONFIG))
                       (opt_requestIntegration given)\<rparr>
              | _ \<Rightarrow> client DEFAULT_CONFIG),
           cloudflare =
             (case opt_cloudflare c of
                Value given \<Rightarrow>
                  \<lparr>rateLimiting =
                     mergeProp (rateLimiting (cloudflare DEFAULT_CONFIG)) (opt_rateLimiting given),
                   requestsPerMinute =
                     mergeProp (requestsPerMinute (cloudflare DEFAULT_CONFIG))
                       (opt_requestsPerMinute given)\<rparr>
              | _ \<Rightarrow> cloudflare DEFAULT_CONFIG),
           server =
             (case opt_server c of
                Value given \<Rightarrow>
                  \<lparr>framework = mergeProp (framework (server DEFAULT_CONFIG)) (opt_framework given),
                   strictMode =
                     mergeProp (strictMode (server DEFAULT_CONFIG)) (opt_strictMode given)\<rparr>
              | _ \<Rightarrow> server DEFAULT_CONFIG)\<rparr>)"

definition validateAndMergeConfig :: "user_config option \<Rightarrow> caller \<Rightarrow> error + config" where
  "validateAndMergeConfig cfg caller =
     (let mergedConfig = mergeConfig cfg in
      if (case endpoints mergedConfig of None \<Rightarrow> True | Some es \<Rightarrow> es = [])
      then Inl (Error ''PoW Shield requires at least one endpoint to protect'')
      else if (caller = ServerContext \<or> caller = CloudflareContext) \<and>
              (case secret mergedConfig of None \<Rightarrow> True | Some s \<Rightarrow> s = [])
      then Inl (Error ''PoW Shield requires a shared secret for HMAC generation'')
      else Inr mergedConfig)"

text \<open>\<open>x || d\<close> on an optional number: the default replaces \<open>undefined\<close> and 0.\<close>

definition orDefault :: "nat option \<Rightarrow> nat \<Rightarrow> nat" where
  "orDefault x d = (case x of None \<Rightarrow> d | Some n \<Rightarrow> if n = 0 then d else n)"

text \<open>
  \<open>isProtectedEndpoint\<close>, the same in the client, the edge validator and the server:
  an exact match, or a prefix match against a pattern that ends in \<open>*\<close>.
\<close>

definition isProtectedEndpoint :: "config \<Rightarrow> string \<Rightarrow> bool" where
  "isProtectedEndpoint cfg endpoint =
     (case endpoints cfg of
        None \<Rightarrow> False
      | Some es \<Rightarrow>
          if es = [] then False
          else list_ex (\<lambda>protectedEndpoint.
                 if endpoint = protectedEndpoint then True
                 else if protectedEndpoint \<noteq> [] \<and> last protectedEndpoint = CHR ''*''
                 then prefix (butlast protectedEndpoint) endpoint
                 else False) es)"

section \<open>The hash functions\<close>

text \<open>
  The digests come from the crypto-js package, which is no part of the repository: they
  are parameters of the model, hexadecimal encoding included.
\<close>

record crypto =
  SHA256 :: "string \<Rightarrow> string"
  HmacSHA256 :: "string \<Rightarrow> string \<Rightarrow> string"
  HmacSHA512 :: "string \<Rightarrow> string \<Rightarrow> string"

definition sha256 :: "crypto \<Rightarrow> string \<Rightarrow> string" where
  "sha256 cr data = SHA256 cr data"

text \<open>\<open>hmac(data, secret, algorithm = 'sha256')\<close>: \<open>undefined\<close> takes the default.\<close>

definition hmac :: "crypto \<Rightarrow> string \<Rightarrow> string \<Rightarrow> hmac_algorithm option \<Rightarrow> string" where
  "hmac cr data secretKey alg =
     (let algorithm = (case alg of None \<Rightarrow> Sha256 | Some a \<Rightarrow> a) in
      if algorithm = Sha256 then HmacSHA256 cr data secretKey
      else HmacSHA512 cr data secretKey)"

text \<open>\<open>s || ''\<close> on an optional string.\<close>

definition orEmpty :: "string option \<Rightarrow> string" where
  "orEmpty s = (case s of None \<Rightarrow> [] | Some x \<Rightarrow> x)"

text \<open>\<open>!s\<close> on an optional string: it is missing or empty.\<close>

definition falsy :: "string option \<Rightarrow> bool" where
  "falsy s = (case s of None \<Rightarrow> True | Some x \<Rightarrow> x = [])"

section \<open>The store of the edge validator\<close>

text \<open>
  The edge validator keeps one \<open>LRUCache\<close> of the lru-cache package (version 11 by
  package.json), built with the options \<open>max\<close> and \<open>ttl\<close>; the package is no part of
  the repository.  The model follows what the package does for the three methods the
  validator calls.  The entries are kept least recently used first.  \<open>set\<close> records
  with an entry its lifetime \<open>ttl\<close> and the reading of the cache's clock as its start
  (0 when the lifetime is 0).  An entry is stale when its lifetime and its start are not 0
  and more than \<open>ttl\<close> milliseconds have passed on the cache's clock since its start
  (the package tests \<open>!!ttl && !!start && now - start > ttl\<close>), so an entry written
  at the clock reading 0 never gets stale.  \<open>has\<close> answers false for a stale entry and
  changes nothing; \<open>get\<close> deletes a stale entry and moves a live one to the most
  recently used end; \<open>set\<close> writes the value, restarts the entry's lifetime, moves
  the entry to the most recently used end, and for a new key in a full store first evicts
  the least recently used entry, stale or not.  The values the validator stores are
  \<open>true\<close> and numbers.
\<close>

datatype jsval = JTrue | JNum nat

record entry =
  e_key :: string
  e_val :: jsval
  e_start :: nat
  e_ttl :: nat

record lru =
  lru_items :: "entry list"
  lru_max :: nat
  lru_ttl :: nat

definition LRUCache_new :: "nat \<Rightarrow> nat \<Rightarrow> lru" where
  "LRUCache_new m t = \<lparr>lru_items = [], lru_max = m, lru_ttl = t\<rparr>"

definition isStale :: "nat \<Rightarrow> entry \<Rightarrow> bool" where
  "isStale now e = (e_ttl e \<noteq> 0 \<and> e_start e \<noteq> 0 \<and> e_ttl e < now - e_start e)"

definition lookupEntry :: "lru \<Rightarrow> string \<Rightarrow> entry option" where
  "lookupEntry c k = find (\<lambda>e. e_key e = k) (lru_items c)"

definition without :: "string \<Rightarrow> entry list \<Rightarrow> entry list" where
  "without k es = filter (\<lambda>e. e_key e \<noteq> k) es"

definition lru_has :: "lru \<Rightarrow> nat \<Rightarrow> string \<Rightarrow> bool" where
  "lru_has c now k = (case lookupEntry c k of None \<Rightarrow> False | Some e \<Rightarrow> \<not> isStale now e)"

definition lru_get :: "lru \<Rightarrow> nat \<Rightarrow> string \<Rightarrow> jsval option \<times> lru" where
  "lru_get c now k =
     (case lookupEntry c k of
        None \<Rightarrow> (None, c)
      | Some e \<Rightarrow>
          if isStale now e then (None, c\<lparr>lru_items := without k (lru_items c)\<rparr>)
          else (Some (e_val e), c\<lparr>lru_items := without k (lru_items c) @ [e]\<rparr>))"

definition lru_set :: "lru \<Rightarrow> nat \<Rightarrow> string \<Rightarrow> jsval \<Rightarrow> nat option \<Rightarrow> lru" where
  "lru_set c now k v ttlOption =
     (let ttl = (case ttlOption of None \<Rightarrow> lru_ttl c | Some t \<Rightarrow> t);
          e = \<lparr>e_key = k, e_val = v, e_start = (if ttl \<noteq> 0 then now else 0), e_ttl = ttl\<rparr>
      in case lookupEntry c k of
           Some old \<Rightarrow> c\<lparr>lru_items := without k (lru_items c) @ [e]\<rparr>
         | None \<Rightarrow>
             if length (lru_items c) = lru_max c
             then c\<lparr>lru_items := tl (lru_items c) @ [e]\<rparr>
             else c\<lparr>lru_items := lru_items c @ [e]\<rparr>)"

text \<open>The number a stored value counts as: \<open>true\<close> is 1.\<close>

definition toNumber :: "jsval \<Rightarrow> nat" where
  "toNumber v = (case v of JTrue \<Rightarrow> 1 | JNum n \<Rightarrow> n)"

section \<open>The edge validator (PowCloudflare)\<close>

record request =
  pathname :: string
  httpMethod :: string
  headers :: "string \<rightharpoonup> string"
  body :: string
  redirect :: string

record response =
  status :: nat
  message :: string

record pow_cloudflare =
  config :: config
  nonceCache :: lru

text \<open>
  The constructor calls \<open>validateAndMergeConfig(config)\<close> with one argument, so the
  caller is the default one, \<open>'client'\<close>.
\<close>

definition PowCloudflare_new :: "user_config option \<Rightarrow> error + pow_cloudflare" where
  "PowCloudflare_new cfg =
     (case validateAndMergeConfig cfg ClientContext of
        Inl e \<Rightarrow> Inl e
      | Inr c \<Rightarrow>
          Inr \<lparr>config = c,
               nonceCache = LRUCache_new (orDefault (cacheSize c) 10000)
                              (orDefault (timestampTolerance c) 30 * 1000)\<rparr>)"

text \<open>
  \<open>checkRateLimit(clientIp)\<close> at the reading \<open>now\<close> of the cache's clock; true means
  that the limit is exceeded.
\<close>

definition checkRateLimit :: "pow_cloudflare \<Rightarrow> nat \<Rightarrow> string \<Rightarrow> bool \<times> pow_cloudflare" where
  "checkRateLimit this now clientIp =
     (let limit = orDefault (requestsPerMinute (cloudflare (config this))) 30;
          rateKey = ''rate:'' @ clientIp;
          (found, cache1) = lru_get (nonceCache this) now rateKey;
          currentCount = (case found of None \<Rightarrow> 0 | Some v \<Rightarrow> toNumber v)
      in if limit \<le> currentCount then (True, this\<lparr>nonceCache := cache1\<rparr>)
         else (False,
               this\<lparr>nonceCache :=
                 lru_set cache1 now rateKey (JNum (currentCount + 1)) (Some (60 * 1000))\<rparr>))"

text \<open>
  The request that \<open>handleRequest\<close> builds in its last step: a copy of the incoming
  one whose headers have \<open>X-HMAC\<close> set.
\<close>

definition modifiedRequest :: "crypto \<Rightarrow> config \<Rightarrow> request \<Rightarrow> string \<Rightarrow> string \<Rightarrow> string \<Rightarrow> request" where
  "modifiedRequest cr cfg req timestamp nonce ctxt =
     (let hmacData = timestamp @ '':'' @ nonce @ '':'' @ ctxt;
          hmacSignature = hmac cr hmacData (orEmpty (secret cfg)) (hmacAlgorithm cfg)
      in \<lparr>pathname = pathname req, httpMethod = httpMethod req,
          headers = (headers req)(''X-HMAC'' \<mapsto> hmacSignature),
          body = body req, redirect = redirect req\<rparr>)"

text \<open>
  \<open>handleRequest(request)\<close>, with the two clocks it reads: \<open>dateNow\<close> is
  \<open>Date.now()\<close> in milliseconds and \<open>perfNow\<close> is the reading of the cache's clock.
  The result is the response, or \<open>None\<close> for \<open>null\<close>, and the validator with its
  store as the call leaves it.  The rate limiter is asked only when rate limiting is on.
  The last step builds the signed copy in the local constant \<open>modifiedRequest\<close> (here
  \<open>modified\<close>) and returns \<open>null\<close>.
\<close>

definition handleRequest ::
    "crypto \<Rightarrow> pow_cloudflare \<Rightarrow> nat \<Rightarrow> nat \<Rightarrow> request \<Rightarrow> response option \<times> pow_cloudflare" where
  "handleRequest cr this dateNow perfNow req =
     (let endpoint = pathname req in
      if \<not> isProtectedEndpoint (config this) endpoint then (None, this)
      else
        case (headers req ''X-Timestamp'', headers req ''X-Nonce'',
              headers req ''X-Context'', headers req ''X-Stamp'') of
          (Some timestamp, Some nonce, Some ctxt, Some stamp) \<Rightarrow>
            if timestamp = [] \<or> nonce = [] \<or> ctxt = [] \<or> stamp = []
            then (Some \<lparr>status = 400, message = ''Missing PoW headers''\<rparr>, this)
            else
              let now = int (dateNow div 1000);
                  timestampNum = parseInt timestamp 10;
                  tolerance = int (orDefault (timestampTolerance (config this)) 30)
              in if (case timestampNum of None \<Rightarrow> True | Some t \<Rightarrow> tolerance < now - t)
                 then (Some \<lparr>status = 403, message = ''Timestamp expired or invalid''\<rparr>, this)
                 else
                   let nonceKey = timestamp @ '':'' @ nonce in
                   if lru_has (nonceCache this) perfNow nonceKey
                   then (Some \<lparr>status = 403, message = ''Nonce already used''\<rparr>, this)
                   else
                     let dataToHash = endpoint @ '':'' @ timestamp @ '':'' @ nonce @ '':'' @ ctxt;
                         validStamp = sha256 cr dataToHash
                     in if validStamp \<noteq> stamp
                        then (Some \<lparr>status = 403, message = ''Invalid PoW stamp''\<rparr>, this)
                        else if \<not> hasLeadingZeros stamp (orDefault (difficulty (config this)) 4)
                        then (Some \<lparr>status = 403, message = ''Insufficient PoW difficulty''\<rparr>, this)
                        else
                          let this1 = this\<lparr>nonceCache :=
                                        lru_set (nonceCache this) perfNow nonceKey JTrue None\<rparr>;
                              clientIp = orEmpty (headers req ''CF-Connecting-IP'');
                              (limitExceeded, this2) =
                                (if rateLimiting (cloudflare (config this)) = Some True
                                 then checkRateLimit this1 perfNow clientIp
                                 else (False, this1))
                          in if limitExceeded
                             then (Some \<lparr>status = 429, message = ''Rate limit exceeded''\<rparr>, this2)
                             else
                               let modified = modifiedRequest cr (config this) req
                                                timestamp nonce ctxt
                               in (None, this2)
        | _ \<Rightarrow> (Some \<lparr>status = 400, message = ''Missing PoW headers''\<rparr>, this))"

text \<open>
  The worker of examples/cloudflare-worker-universal.js: a response of the validator is
  returned, and on \<open>null\<close> the incoming request is fetched from the origin.
\<close>

datatype worker_action = Respond response | FetchOrigin request

definition worker_fetch ::
    "crypto \<Rightarrow> pow_cloudflare \<Rightarrow> nat \<Rightarrow> nat \<Rightarrow> request \<Rightarrow> worker_action \<times> pow_cloudflare" where
  "worker_fetch cr powWorker dateNow perfNow req =
     (case handleRequest cr powWorker dateNow perfNow req of
        (Some powResponse, w) \<Rightarrow> (Respond powResponse, w)
      | (None, w) \<Rightarrow> (FetchOrigin req, w))"

section \<open>The origin verifier (src/server.ts)\<close>

text \<open>
  The constructor calls \<open>validateAndMergeConfig(config)\<close> with one argument, so the
  caller is the default one, \<open>'client'\<close>.
\<close>

definition PowServer_new :: "user_config option \<Rightarrow> error + config" where
  "PowServer_new cfg = validateAndMergeConfig cfg ClientContext"

record express_request =
  path :: string
  req_headers :: "string \<rightharpoonup> string"

datatype middleware_result = Next | Send response

definition expressMiddleware :: "crypto \<Rightarrow> config \<Rightarrow> express_request \<Rightarrow> middleware_result" where
  "expressMiddleware cr cfg req =
     (if \<not> isProtectedEndpoint cfg (path req) then Next
      else
        let hmacSignature = req_headers req ''x-hmac'' in
        if falsy hmacSignature then
          (if strictMode (server cfg) = Some True
           then Send \<lparr>status = 403, message = ''Missing HMAC signature''\<rparr>
           else Next)
        else
          let timestamp = req_headers req ''x-timestamp'';
              nonce = req_headers req ''x-nonce'';
              ctxt = req_headers req ''x-context''
          in if falsy timestamp \<or> falsy nonce \<or> falsy ctxt
             then Send \<lparr>status = 400, message = ''Missing required headers''\<rparr>
             else
               let hmacData = orEmpty timestamp @ '':'' @ orEmpty nonce @ '':'' @ orEmpty ctxt;
                   expectedHmac = hmac cr hmacData (orEmpty (secret cfg)) (hmacAlgorithm cfg)
               in if orEmpty hmacSignature \<noteq> expectedHmac
                  then Send \<lparr>status = 403, message = ''Invalid HMAC signature''\<rparr>
                  else Next)"

section \<open>The puzzle solver (src/client.ts)\<close>

definition PowClient_new :: "user_config option \<Rightarrow> error + config" where
  "PowClient_new cfg = validateAndMergeConfig cfg ClientContext"






section \<open>Notions used in the statements\<close>




text \<open>The request carries the four proof fields, none of them empty.\<close>

definition carries :: "request \<Rightarrow> string \<Rightarrow> string \<Rightarrow> string \<Rightarrow> string \<Rightarrow> bool" where
  "carries req ts n c s =
     (headers req ''X-Timestamp'' = Some ts \<and> headers req ''X-Nonce'' = Some n \<and>
      headers req ''X-Context'' = Some c \<and> headers req ''X-Stamp'' = Some s \<and>
      ts \<noteq> [] \<and> n \<noteq> [] \<and> c \<noteq> [] \<and> s \<noteq> [])"

text \<open>The condition of the timestamp step, at the clock reading \<open>dateNow\<close>.\<close>

definition timestampRejected :: "config \<Rightarrow> nat \<Rightarrow> string \<Rightarrow> bool" where
  "timestampRejected cfg dateNow ts =
     (case parseInt ts 10 of
        None \<Rightarrow> True
      | Some t \<Rightarrow> int (orDefault (timestampTolerance cfg) 30) < int (dateNow div 1000) - t)"

text \<open>Steps 7 to 9: what \<open>handleRequest\<close> does once the proof is accepted.\<close>

definition admit :: "pow_cloudflare \<Rightarrow> nat \<Rightarrow> request \<Rightarrow> string \<Rightarrow> response option \<times> pow_cloudflare" where
  "admit this perfNow req nonceKey =
     (let this1 = this\<lparr>nonceCache := lru_set (nonceCache this) perfNow nonceKey JTrue None\<rparr>
      in if rateLimiting (cloudflare (config this)) = Some True
         then
           let (limitExceeded, this2) =
                 checkRateLimit this1 perfNow (orEmpty (headers req ''CF-Connecting-IP''))
           in if limitExceeded
              then (Some \<lparr>status = 429, message = ''Rate limit exceeded''\<rparr>, this2)
              else (None, this2)
         else (None, this1))"

text \<open>The keys in the store.\<close>

definition keysOf :: "lru \<Rightarrow> string set" where
  "keysOf c = e_key ` set (lru_items c)"

text \<open>
  A validator handles its requests one after another; every request comes with the two
  clock readings of its call.
\<close>

type_synonym event = "nat \<times> nat \<times> request"

fun serve :: "crypto \<Rightarrow> pow_cloudflare \<Rightarrow> event list \<Rightarrow> response option list \<times> pow_cloudflare" where
  "serve cr this [] = ([], this)"
| "serve cr this ((dateNow, perfNow, req) # es) =
     (let (r, this1) = handleRequest cr this dateNow perfNow req;
          (rs, this2) = serve cr this1 es
      in (r # rs, this2))"

text \<open>
  The two kinds of entry in the store: a nonce key with the lifetime of the validators
  below (a tolerance of 30 seconds), and the counter of a caller.
\<close>

definition nonceEntry :: "string \<Rightarrow> nat \<Rightarrow> entry" where
  "nonceEntry k t = \<lparr>e_key = k, e_val = JTrue, e_start = t, e_ttl = 30000\<rparr>"

definition rateEntry :: "string \<Rightarrow> nat \<Rightarrow> nat \<Rightarrow> entry" where
  "rateEntry ip n t = \<lparr>e_key = ''rate:'' @ ip, e_val = JNum n, e_start = t, e_ttl = 60000\<rparr>"


text \<open>
  The request passes steps 1 to 6: the endpoint is protected, the four fields are
  there, the timestamp is fresh, the nonce key is not live in the store, the stamp is the
  digest of the fields and meets the difficulty.
\<close>

definition accepted ::
    "crypto \<Rightarrow> pow_cloudflare \<Rightarrow> nat \<Rightarrow> nat \<Rightarrow> request \<Rightarrow> string \<Rightarrow> string \<Rightarrow> string \<Rightarrow> string
      \<Rightarrow> bool" where
  "accepted cr this dateNow perfNow req ts n c s =
     (isProtectedEndpoint (config this) (pathname req) \<and> carries req ts n c s \<and>
      \<not> timestampRejected (config this) dateNow ts \<and>
      \<not> lru_has (nonceCache this) perfNow (ts @ '':'' @ n) \<and>
      sha256 cr (pathname req @ '':'' @ ts @ '':'' @ n @ '':'' @ c) = s \<and>
      hasLeadingZeros s (orDefault (difficulty (config this)) 4))"

text \<open>
  The count that \<open>checkRateLimit\<close> reads for a caller at a clock reading: the number
  under the caller's key, and 0 when there is no entry or the entry is stale.
\<close>

definition liveCount :: "lru \<Rightarrow> nat \<Rightarrow> string \<Rightarrow> nat" where
  "liveCount c now ip =
     (case lookupEntry c (''rate:'' @ ip) of
        None \<Rightarrow> 0
      | Some e \<Rightarrow> if isStale now e then 0 else toNumber (e_val e))"

text \<open>The key of a caller's counter.\<close>

definition rateKey :: "string \<Rightarrow> string" where
  "rateKey ip = ''rate:'' @ ip"

text \<open>The key under which \<open>handleRequest\<close> records a request.\<close>

definition nonceKey :: "request \<Rightarrow> string" where
  "nonceKey req =
     orEmpty (headers req ''X-Timestamp'') @ '':'' @ orEmpty (headers req ''X-Nonce'')"

text \<open>
  The request passes every check that does not read the store: the endpoint is
  protected, the four fields are there, the timestamp is fresh at \<open>dateNow\<close>, the stamp
  is the digest of the fields and meets the difficulty.
\<close>

definition proofOK :: "crypto \<Rightarrow> config \<Rightarrow> nat \<Rightarrow> request \<Rightarrow> bool" where
  "proofOK cr cfg dateNow req =
     (let ts = orEmpty (headers req ''X-Timestamp'');
          n = orEmpty (headers req ''X-Nonce'');
          c = orEmpty (headers req ''X-Context'');
          s = orEmpty (headers req ''X-Stamp'')
      in isProtectedEndpoint cfg (pathname req) \<and> carries req ts n c s \<and>
         \<not> timestampRejected cfg dateNow ts \<and>
         sha256 cr (pathname req @ '':'' @ ts @ '':'' @ n @ '':'' @ c) = s \<and>
         hasLeadingZeros s (orDefault (difficulty cfg) 4))"


text \<open>The integers on which the arithmetic of JavaScript numbers is exact.\<close>

definition safeInteger :: "int \<Rightarrow> bool" where
  "safeInteger x = (\<bar>x\<bar> < 2 ^ 53)"

text \<open>
  The numbers that the timestamp step computes with (the clock reading, the tolerance in
  force and the parsed timestamp) are in that range, so that the step computes in the
  code as it does here.
\<close>

definition exactAt :: "config \<Rightarrow> nat \<Rightarrow> string \<Rightarrow> bool" where
  "exactAt cfg dateNow ts =
     (safeInteger (int dateNow) \<and>
      safeInteger (int (orDefault (timestampTolerance cfg) 30)) \<and>
      (case parseInt ts 10 of None \<Rightarrow> True | Some t \<Rightarrow> safeInteger t))"


text \<open>The entry that \<open>set\<close> writes.\<close>

definition written :: "lru \<Rightarrow> nat \<Rightarrow> string \<Rightarrow> jsval \<Rightarrow> nat option \<Rightarrow> entry" where
  "written c now k v t =
     (let ttl = (case t of None \<Rightarrow> lru_ttl c | Some x \<Rightarrow> x)
      in \<lparr>e_key = k, e_val = v, e_start = (if ttl \<noteq> 0 then now else 0), e_ttl = ttl\<rparr>)"

text \<open>
  The store as the constructor builds it and the requests leave it: the options are the
  ones of the configuration, the entries respect the capacity, and no key occurs twice.
\<close>

definition wellFormed :: "pow_cloudflare \<Rightarrow> bool" where
  "wellFormed this =
     (lru_max (nonceCache this) = orDefault (cacheSize (config this)) 10000 \<and>
      lru_ttl (nonceCache this) = orDefault (timestampTolerance (config this)) 30 * 1000 \<and>
      length (lru_items (nonceCache this)) \<le> lru_max (nonceCache this) \<and>
      distinct (map e_key (lru_items (nonceCache this))))"

text \<open>The caller that a request names.\<close>

definition callerOf :: "request \<Rightarrow> string" where
  "callerOf req = orEmpty (headers req ''CF-Connecting-IP'')"

text \<open>
  The request passes steps 1 to 6 on the validator as it is: it is valid but for replay
  and rate, and its nonce key is not live in the store.
\<close>

definition passes :: "crypto \<Rightarrow> pow_cloudflare \<Rightarrow> nat \<Rightarrow> nat \<Rightarrow> request \<Rightarrow> bool" where
  "passes cr this dateNow perfNow req =
     (proofOK cr (config this) dateNow req \<and>
      \<not> lru_has (nonceCache this) perfNow (nonceKey req))"





section \<open>Concrete inputs\<close>

text \<open>
  The options object \<open>{}\<close>, and stand-ins for the digests on which the concrete runs
  below are evaluated: the stand-in for SHA-256 puts \<open>0a\<close> before its input, so every
  digest starts with four zero bits.
\<close>

definition noOptions :: user_config where
  "noOptions =
     \<lparr>opt_endpoints = Absent, opt_secret = Absent, opt_difficulty = Absent,
      opt_timestampTolerance = Absent, opt_cacheType = Absent, opt_cacheSize = Absent,
      opt_contextGenerator = Absent, opt_hmacAlgorithm = Absent, opt_client = Absent,
      opt_cloudflare = Absent, opt_server = Absent\<rparr>"

definition toyCrypto :: crypto where
  "toyCrypto =
     \<lparr>SHA256 = (\<lambda>s. ''0a'' @ s),
      HmacSHA256 = (\<lambda>d k. ''h256:'' @ k @ '':'' @ d),
      HmacSHA512 = (\<lambda>d k. ''h512:'' @ k @ '':'' @ d)\<rparr>"

text \<open>
  An origin verifier that protects \<open>/api/data\<close>, and a request to it that carries the
  signature of its fields and no \<open>x-stamp\<close>.
\<close>

definition originConfig :: config where
  "originConfig = DEFAULT_CONFIG\<lparr>endpoints := Some [''/api/data''], secret := Some ''s''\<rparr>"

definition signedNoStamp :: express_request where
  "signedNoStamp =
     \<lparr>path = ''/api/data'',
      req_headers = [''x-hmac'' \<mapsto> ''h256:s:1000:n1:c'', ''x-timestamp'' \<mapsto> ''1000'',
                     ''x-nonce'' \<mapsto> ''n1'', ''x-context'' \<mapsto> ''c'']\<rparr>"


text \<open>
  An edge validator for the concrete runs: \<open>/api/*\<close> is protected, the secret is
  \<open>s\<close>, everything else is the default; and a request to \<open>/api/data\<close> whose
  stamp is the stand-in digest of its own fields.
\<close>

definition edgeOptions :: user_config where
  "edgeOptions = noOptions\<lparr>opt_endpoints := Value [''/api/*''], opt_secret := Value ''s''\<rparr>"

definition edge :: pow_cloudflare where
  "edge =
     \<lparr>config = DEFAULT_CONFIG\<lparr>endpoints := Some [''/api/*''], secret := Some ''s''\<rparr>,
      nonceCache = LRUCache_new 10000 30000\<rparr>"

definition powRequest :: "string \<Rightarrow> string \<Rightarrow> string \<Rightarrow> request" where
  "powRequest ts n ip =
     \<lparr>pathname = ''/api/data'', httpMethod = ''GET'',
      headers = [''X-Timestamp'' \<mapsto> ts, ''X-Nonce'' \<mapsto> n, ''X-Context'' \<mapsto> ''c'',
                 ''X-Stamp'' \<mapsto> ''0a/api/data:'' @ ts @ '':'' @ n @ '':c'',
                 ''CF-Connecting-IP'' \<mapsto> ip],
      body = [], redirect = ''follow''\<rparr>"



text \<open>A validator that admits two requests per minute, for the concrete runs.\<close>

definition slowConfig :: config where
  "slowConfig =
     DEFAULT_CONFIG\<lparr>endpoints := Some [''/api/*''], secret := Some ''s'',
                     cloudflare := \<lparr>rateLimiting = Some True, requestsPerMinute = Some 2\<rparr>\<rparr>"

definition slowEdge :: pow_cloudflare where
  "slowEdge = \<lparr>config = slowConfig, nonceCache = LRUCache_new 10000 30000\<rparr>"




text \<open>
  The validator that admits two requests per minute with given entries in its store,
  and a run of two callers whose requests alternate.
\<close>

definition slowStore :: "entry list \<Rightarrow> pow_cloudflare" where
  "slowStore items =
     \<lparr>config = slowConfig,
      nonceCache = \<lparr>lru_items = items, lru_max = 10000, lru_ttl = 30000\<rparr>\<rparr>"




text \<open>A request that is submitted again, and the validator after its first submission.\<close>

definition replayed :: request where
  "replayed = powRequest ''1000'' ''n1'' ''1.2.3.4''"

definition afterFirst :: pow_cloudflare where
  "afterFirst =
     edge\<lparr>nonceCache :=
       \<lparr>lru_items = [nonceEntry ''1000:n1'' 5, rateEntry ''1.2.3.4'' 1 5],
        lru_max = 10000, lru_ttl = 30000\<rparr>\<rparr>"

section \<open>Properties of the difficulty check\<close>

lemma lt16_cases: "(v::nat) < 16 \<Longrightarrow> v = 0 \<or> v = 1 \<or> v = 2 \<or> v = 3 \<or> v = 4 \<or> v = 5 \<or> v = 6 \<or> v = 7
   \<or> v = 8 \<or> v = 9 \<or> v = 10 \<or> v = 11 \<or> v = 12 \<or> v = 13 \<or> v = 14 \<or> v = 15"
  by arith

lemma replicate_small: "replicate 3 x = [x, x, x]" "replicate 2 x = [x, x]"
  by (simp_all add: numeral_3_eq_3 numeral_2_eq_2)

lemma toString2_small:
  "v < 16 \<Longrightarrow> padStart 4 (CHR ''0'') (toString2 v) =
     map bitChar [odd (v div 8), odd (v div 4), odd (v div 2), odd v]"
  by (drule lt16_cases) (elim disjE; simp add: toString2.simps padStart_def bitChar_def replicate_small)

lemma parseInt_hex_char:
  assumes "digitValue c = Some v" "v < 16"
  shows "parseInt [c] 16 = Some (int v)"
proof -
  from assms have ws: "\<not> isWhiteSpace c" and sg: "c \<noteq> CHR ''-''" "c \<noteq> CHR ''+''"
    by (auto simp: digitValue_def isWhiteSpace_def Let_def split: if_splits)
  from assms have rd: "isRadixDigit 16 c" by (simp add: isRadixDigit_def)
  from assms have dn: "digitNat c = v" by (simp add: digitNat_def)
  show ?thesis
    using ws sg rd dn by (simp add: parseInt_def Let_def)
qed

lemma nibble_hex:
  assumes "isRadixDigit 16 c"
  shows "nibble c = map bitChar (nibbleBits c)"
proof -
  from assms obtain v where v: "digitValue c = Some v" "v < 16"
    by (auto simp: isRadixDigit_def split: option.splits)
  then have "digitNat c = v" by (simp add: digitNat_def)
  with v show ?thesis
    by (simp add: nibble_def parseInt_hex_char toString2_small nibbleBits_def Let_def)
qed

lemma binaryString_concat: "binaryString hash = concat (map nibble hash)"
proof -
  have "foldl (\<lambda>binary c. binary @ nibble c) acc hash = acc @ concat (map nibble hash)" for acc
    by (induction hash arbitrary: acc) simp_all
  then show ?thesis by (simp add: binaryString_def)
qed

lemma binaryString_hex:
  "isHexDigest d \<Longrightarrow> binaryString d = map bitChar (digestBits d)"
  unfolding binaryString_concat digestBits_def isHexDigest_def
  by (induction d) (simp_all add: nibble_hex)

lemma leadingZerosFrom_iff:
  "leadingZerosFrom binary n i =
     (\<forall>j. i \<le> j \<and> j < n \<longrightarrow> charAt binary j = Some (CHR ''0''))"
proof (induction binary n i rule: leadingZerosFrom.induct)
  case (1 binary n i)
  show ?case
  proof (cases "i < n")
    case False
    then show ?thesis by (auto simp: leadingZerosFrom.simps [of binary n i])
  next
    case True
    show ?thesis
    proof (cases "charAt binary i = Some (CHR ''0'')")
      case False
      with True show ?thesis
        by (auto simp: leadingZerosFrom.simps [of binary n i])
    next
      case c: True
      have "leadingZerosFrom binary n i = leadingZerosFrom binary n (Suc i)"
        using True c by (simp add: leadingZerosFrom.simps [of binary n i])
      also have "\<dots> = (\<forall>j. Suc i \<le> j \<and> j < n \<longrightarrow> charAt binary j = Some (CHR ''0''))"
        using "1.IH" True c by simp
      also have "\<dots> = (\<forall>j. i \<le> j \<and> j < n \<longrightarrow> charAt binary j = Some (CHR ''0''))"
      proof (intro iffI allI impI)
        fix j assume h: "\<forall>j. Suc i \<le> j \<and> j < n \<longrightarrow> charAt binary j = Some (CHR ''0'')"
          and j: "i \<le> j \<and> j < n"
        show "charAt binary j = Some (CHR ''0'')"
        proof (cases "j = i")
          case True then show ?thesis using c by simp
        next
          case False
          with j have "Suc i \<le> j \<and> j < n" by simp
          with h show ?thesis by blast
        qed
      next
        fix j assume h: "\<forall>j. i \<le> j \<and> j < n \<longrightarrow> charAt binary j = Some (CHR ''0'')"
          and j: "Suc i \<le> j \<and> j < n"
        then have "i \<le> j \<and> j < n" by simp
        with h show "charAt binary j = Some (CHR ''0'')" by blast
      qed
      finally show ?thesis .
    qed
  qed
qed

lemma hasLeadingZeros_iff:
  "hasLeadingZeros hash n =
     (n \<le> length (binaryString hash) \<and>
      (\<forall>j < n. binaryString hash ! j = CHR ''0''))"
  unfolding hasLeadingZeros_def leadingZerosFrom_iff charAt_def
  by (auto split: if_splits simp: not_less) (metis order_refl less_le_trans)

lemma take_replicate_bits:
  "(take b bs = replicate b False) = (b \<le> length bs \<and> (\<forall>j < b. map bitChar bs ! j = CHR ''0''))"
proof -
  have "(take b bs = replicate b False) = (length (take b bs) = b \<and> (\<forall>j < b. take b bs ! j = False))"
    by (auto simp: list_eq_iff_nth_eq)
  also have "\<dots> = (b \<le> length bs \<and> (\<forall>j < b. map bitChar bs ! j = CHR ''0''))"
    by (auto simp: bitChar_def min_def split: if_splits)
  finally show ?thesis .
qed

lemma hasLeadingZeros_hex:
  "isHexDigest d \<Longrightarrow> hasLeadingZeros d b = satisfies_spec d b"
  by (simp add: hasLeadingZeros_iff binaryString_hex satisfies_spec_def take_replicate_bits)

lemma length_digestBits: "length (digestBits d) = 4 * length d"
  by (induction d) (simp_all add: digestBits_def nibbleBits_def Let_def)

lemma digestBits_Cons: "digestBits (c # cs) = nibbleBits c @ digestBits cs"
  by (simp add: digestBits_def)

lemma nibbleBits_zero: "nibbleBits (CHR ''0'') = [False, False, False, False]"
  by (simp add: nibbleBits_def digitNat_def digitValue_def)

lemma ninth_bit:
  "take 9 (replicate 8 False @ bs) = replicate 9 False \<longleftrightarrow> (bs \<noteq> [] \<and> \<not> hd bs)"
proof -
  have "replicate 9 False = replicate 8 False @ [False]"
    by (simp add: eval_nat_numeral replicate_append_same)
  moreover have "take 9 (replicate 8 False @ bs) = replicate 8 False @ take 1 bs"
    by simp
  ultimately show ?thesis
    by (cases bs) simp_all
qed

text \<open>
  Claim C5, as amended.  On a digest of hexadecimal characters \<open>hasLeadingZeros\<close>
  is true exactly when the first \<open>b\<close> bits of the nibble-wise expansion exist and
  are all zero; it is true for \<open>b = 0\<close> and false for \<open>b > 4 * length d\<close>.  It counts
  bits: a digest that starts with \<open>00\<close> passes \<open>b = 8\<close>, and it passes \<open>b = 9\<close>
  exactly when a third character exists and its value is below 8 (so it fails \<open>b = 9\<close>
  when the digest ends there or the third digit is 8 or more).
\<close>

theorem hasLeadingZeros_counts_bits:
  assumes "isHexDigest d"
  shows "(hasLeadingZeros d b \<longleftrightarrow> satisfies_spec d b) \<and>
         hasLeadingZeros d 0 \<and>
         (4 * length d < b \<longrightarrow> \<not> hasLeadingZeros d b) \<and>
         (take 2 d = ''00'' \<longrightarrow>
            hasLeadingZeros d 8 \<and>
            (hasLeadingZeros d 9 \<longleftrightarrow> 2 < length d \<and> digitNat (d ! 2) < 8))"
proof (intro conjI impI)
  show "hasLeadingZeros d b \<longleftrightarrow> satisfies_spec d b"
    using assms by (rule hasLeadingZeros_hex)
  show "hasLeadingZeros d 0"
    by (simp add: hasLeadingZeros_iff)
  show "\<not> hasLeadingZeros d b" if "4 * length d < b"
  proof -
    have "length (binaryString d) = 4 * length d"
      using assms by (simp add: binaryString_hex length_digestBits)
    with that show ?thesis by (simp add: hasLeadingZeros_iff)
  qed
next
  assume z: "take 2 d = ''00''"
  then obtain rest where d: "d = CHR ''0'' # CHR ''0'' # rest"
    by (cases d; cases "tl d") (auto simp: eval_nat_numeral)
  have bits: "digestBits d = replicate 8 False @ digestBits rest"
    by (simp add: d digestBits_Cons nibbleBits_zero eval_nat_numeral)
  show "hasLeadingZeros d 8"
    using assms by (simp add: hasLeadingZeros_hex satisfies_spec_def bits)
  have "hasLeadingZeros d 9 \<longleftrightarrow> (digestBits rest \<noteq> [] \<and> \<not> hd (digestBits rest))"
    using assms ninth_bit [of "digestBits rest"]
    by (simp only: hasLeadingZeros_hex satisfies_spec_def bits)
  also have "\<dots> \<longleftrightarrow> 2 < length d \<and> digitNat (d ! 2) < 8"
  proof (cases rest)
    case Nil
    then show ?thesis by (simp add: d digestBits_def)
  next
    case (Cons c cs)
    from assms have "isRadixDigit 16 c"
      by (simp add: isHexDigest_def d Cons)
    then have "digitNat c < 16"
      by (auto simp: isRadixDigit_def digitNat_def split: option.splits)
    then have "odd (digitNat c div 8) \<longleftrightarrow> \<not> digitNat c < 8"
      by (drule_tac lt16_cases) (elim disjE; simp)
    then show ?thesis
      by (simp add: d Cons digestBits_Cons nibbleBits_def Let_def)
  qed
  finally show "hasLeadingZeros d 9 \<longleftrightarrow> 2 < length d \<and> digitNat (d ! 2) < 8" .
qed

theorem hasLeadingZeros_counts_bits_witness:
  "isHexDigest ''00ff3b'' \<and> hasLeadingZeros ''00ff3b'' 8 \<and> \<not> hasLeadingZeros ''00ff3b'' 9 \<and>
   satisfies_spec ''00ff3b'' 8 \<and> \<not> hasLeadingZeros ''00ff3b'' 25"
proof -
  have h: "isHexDigest ''00ff3b''"
    by (simp add: isHexDigest_def isRadixDigit_def digitValue_def)
  have n: "digitNat (''00ff3b'' ! 2) = 15"
    by (simp add: digitNat_def digitValue_def)
  show ?thesis
    using h n hasLeadingZeros_counts_bits [OF h, of 8] hasLeadingZeros_counts_bits [OF h, of 25]
    by auto
qed

text \<open>
  The claim as written fails: a digest that starts with \<open>00\<close> need not fail at
  \<open>b = 9\<close>.
\<close>

theorem starts_with_00_passes_nine_bits:
  "isHexDigest ''007f'' \<and> take 2 ''007f'' = ''00'' \<and> hasLeadingZeros ''007f'' 8 \<and>
   hasLeadingZeros ''007f'' 9"
proof -
  have h: "isHexDigest ''007f''"
    by (simp add: isHexDigest_def isRadixDigit_def digitValue_def)
  have b: "binaryString ''007f'' = ''0000000001111111''"
    by (simp add: binaryString_concat nibble_hex isRadixDigit_def digitValue_def nibbleBits_def
        digitNat_def bitChar_def)
  show ?thesis
    using h by (simp add: hasLeadingZeros_def b leadingZerosFrom.simps charAt_def)
qed

section \<open>Initialization\<close>

lemma validateAndMergeConfig_fails_iff:
  "(\<exists>e. validateAndMergeConfig cfg caller = Inl e) \<longleftrightarrow>
     (case endpoints (mergeConfig cfg) of None \<Rightarrow> True | Some es \<Rightarrow> es = []) \<or>
     ((caller = ServerContext \<or> caller = CloudflareContext) \<and> falsy (secret (mergeConfig cfg)))"
  by (auto simp: validateAndMergeConfig_def Let_def falsy_def split: option.splits)

text \<open>
  Claim C8 at the origin verifier: the constructor of \<open>PowServer\<close> accepts options
  with endpoints and no secret, although the verifier signs with the secret.  The same
  options are refused when \<open>validateAndMergeConfig\<close> is told that the caller is the
  server.
\<close>

theorem PowServer_new_without_secret:
  "PowServer_new (Some (noOptions\<lparr>opt_endpoints := Value [''/api/test'']\<rparr>)) =
     Inr (DEFAULT_CONFIG\<lparr>endpoints := Some [''/api/test'']\<rparr>) \<and>
   validateAndMergeConfig (Some (noOptions\<lparr>opt_endpoints := Value [''/api/test'']\<rparr>))
       ServerContext =
     Inl (Error ''PoW Shield requires a shared secret for HMAC generation'')"
  by (simp add: PowServer_new_def validateAndMergeConfig_def mergeConfig_def noOptions_def
      mergeProp_def DEFAULT_CONFIG_def)

section \<open>The origin verifier\<close>

text \<open>
  Claim C2, as amended.  On a protected endpoint the Express middleware rejects with 403
  in strict mode and admits otherwise when \<open>x-hmac\<close> is missing or empty; with
  \<open>x-hmac\<close> present it rejects with 400 when one of \<open>x-timestamp\<close>, \<open>x-nonce\<close>,
  \<open>x-context\<close> is missing or empty, and otherwise admits exactly when \<open>x-hmac\<close> is
  the HMAC of \<open>timestamp:nonce:context\<close> under the secret, rejecting with 403 if not.
  The header \<open>x-stamp\<close> is never read.
\<close>

theorem expressMiddleware_decision:
  assumes "isProtectedEndpoint cfg (path req)"
  shows "(falsy (req_headers req ''x-hmac'') \<longrightarrow>
            expressMiddleware cr cfg req =
              (if strictMode (server cfg) = Some True
               then Send \<lparr>status = 403, message = ''Missing HMAC signature''\<rparr> else Next)) \<and>
         (\<not> falsy (req_headers req ''x-hmac'') \<and>
          (falsy (req_headers req ''x-timestamp'') \<or> falsy (req_headers req ''x-nonce'') \<or>
           falsy (req_headers req ''x-context'')) \<longrightarrow>
            expressMiddleware cr cfg req =
              Send \<lparr>status = 400, message = ''Missing required headers''\<rparr>) \<and>
         (\<forall>sig ts n c.
            req_headers req ''x-hmac'' = Some sig \<and> sig \<noteq> [] \<and>
            req_headers req ''x-timestamp'' = Some ts \<and> ts \<noteq> [] \<and>
            req_headers req ''x-nonce'' = Some n \<and> n \<noteq> [] \<and>
            req_headers req ''x-context'' = Some c \<and> c \<noteq> [] \<longrightarrow>
            expressMiddleware cr cfg req =
              (if sig = hmac cr (ts @ '':'' @ n @ '':'' @ c) (orEmpty (secret cfg))
                          (hmacAlgorithm cfg)
               then Next
               else Send \<lparr>status = 403, message = ''Invalid HMAC signature''\<rparr>)) \<and>
         expressMiddleware cr cfg (req\<lparr>req_headers := (req_headers req)(''x-stamp'' := v)\<rparr>) =
           expressMiddleware cr cfg req"
  using assms
  by (auto simp: expressMiddleware_def Let_def falsy_def orEmpty_def split: option.splits)

lemma originConfig_protects: "isProtectedEndpoint originConfig ''/api/data''"
  by (simp add: isProtectedEndpoint_def originConfig_def DEFAULT_CONFIG_def)

theorem expressMiddleware_decision_witness:
  "isProtectedEndpoint originConfig (path signedNoStamp) \<and>
   expressMiddleware toyCrypto originConfig signedNoStamp = Next \<and>
   expressMiddleware toyCrypto originConfig
       (signedNoStamp\<lparr>req_headers := (req_headers signedNoStamp)(''x-stamp'' := Some ''0a'')\<rparr>) =
     Next \<and>
   expressMiddleware toyCrypto originConfig
       (signedNoStamp\<lparr>req_headers := (req_headers signedNoStamp)(''x-hmac'' := None)\<rparr>) =
     Send \<lparr>status = 403, message = ''Missing HMAC signature''\<rparr>"
proof -
  have p: "isProtectedEndpoint originConfig (path signedNoStamp)"
    by (simp add: signedNoStamp_def originConfig_protects)
  have p': "isProtectedEndpoint originConfig
              (path (signedNoStamp\<lparr>req_headers := (req_headers signedNoStamp)(''x-hmac'' := None)\<rparr>))"
    by (simp add: signedNoStamp_def originConfig_protects)
  have s: "expressMiddleware toyCrypto originConfig signedNoStamp = Next"
    using expressMiddleware_decision [OF p, of toyCrypto None]
    by (simp add: signedNoStamp_def originConfig_def DEFAULT_CONFIG_def hmac_def toyCrypto_def
        orEmpty_def falsy_def)
  have t: "expressMiddleware toyCrypto originConfig
       (signedNoStamp\<lparr>req_headers := (req_headers signedNoStamp)(''x-stamp'' := Some ''0a'')\<rparr>) = Next"
    using expressMiddleware_decision [OF p, of toyCrypto "Some ''0a''"] s by simp
  have u: "expressMiddleware toyCrypto originConfig
       (signedNoStamp\<lparr>req_headers := (req_headers signedNoStamp)(''x-hmac'' := None)\<rparr>) =
     Send \<lparr>status = 403, message = ''Missing HMAC signature''\<rparr>"
    using expressMiddleware_decision [OF p', of toyCrypto None]
    by (simp add: signedNoStamp_def originConfig_def DEFAULT_CONFIG_def falsy_def)
  from p s t u show ?thesis by simp
qed

text \<open>
  The claim as written fails: with \<open>x-stamp\<close> absent and the other headers present
  the request is not rejected with 400; here it is admitted.
\<close>

theorem missing_stamp_is_admitted:
  "req_headers signedNoStamp ''x-stamp'' = None \<and>
   req_headers signedNoStamp ''x-hmac'' = Some ''h256:s:1000:n1:c'' \<and>
   isProtectedEndpoint originConfig (path signedNoStamp) \<and>
   expressMiddleware toyCrypto originConfig signedNoStamp = Next"
  by (simp add: expressMiddleware_def signedNoStamp_def originConfig_def DEFAULT_CONFIG_def
      isProtectedEndpoint_def hmac_def toyCrypto_def orEmpty_def falsy_def)

section \<open>The puzzle solver\<close>




lemma hasLeadingZeros_append:
  "n \<le> length (binaryString p) \<Longrightarrow> hasLeadingZeros (p @ s) n = hasLeadingZeros p n"
  by (auto simp: hasLeadingZeros_iff binaryString_concat nth_append)


section \<open>The validation pipeline of the edge validator\<close>

lemma handleRequest_unprotected:
  "\<not> isProtectedEndpoint (config this) (pathname req) \<Longrightarrow>
   handleRequest cr this dateNow perfNow req = (None, this)"
  by (simp add: handleRequest_def)

lemma handleRequest_stages:
  assumes "isProtectedEndpoint (config this) (pathname req)" and "carries req ts n c s"
  shows "handleRequest cr this dateNow perfNow req =
     (if timestampRejected (config this) dateNow ts
      then (Some \<lparr>status = 403, message = ''Timestamp expired or invalid''\<rparr>, this)
      else if lru_has (nonceCache this) perfNow (ts @ '':'' @ n)
      then (Some \<lparr>status = 403, message = ''Nonce already used''\<rparr>, this)
      else if sha256 cr (pathname req @ '':'' @ ts @ '':'' @ n @ '':'' @ c) \<noteq> s
      then (Some \<lparr>status = 403, message = ''Invalid PoW stamp''\<rparr>, this)
      else if \<not> hasLeadingZeros s (orDefault (difficulty (config this)) 4)
      then (Some \<lparr>status = 403, message = ''Insufficient PoW difficulty''\<rparr>, this)
      else admit this perfNow req (ts @ '':'' @ n))"
  using assms
  by (simp add: handleRequest_def carries_def timestampRejected_def admit_def Let_def
      case_prod_beta split: option.splits)

lemma admit_result:
  "fst (admit this perfNow req k) = None \<or>
   fst (admit this perfNow req k) = Some \<lparr>status = 429, message = ''Rate limit exceeded''\<rparr>"
  by (simp add: admit_def Let_def split: prod.splits)

lemma edge_is_constructed: "PowCloudflare_new (Some edgeOptions) = Inr edge"
  by (simp add: PowCloudflare_new_def validateAndMergeConfig_def mergeConfig_def edgeOptions_def
      noOptions_def mergeProp_def DEFAULT_CONFIG_def edge_def orDefault_def)

lemma edge_protects: "isProtectedEndpoint (config edge) (pathname (powRequest ts n ip))"
  by (simp add: isProtectedEndpoint_def edge_def DEFAULT_CONFIG_def powRequest_def)

lemma powRequest_carries:
  "ts \<noteq> [] \<Longrightarrow> n \<noteq> [] \<Longrightarrow>
   carries (powRequest ts n ip) ts n ''c'' (''0a/api/data:'' @ ts @ '':'' @ n @ '':c'')"
  by (simp add: carries_def powRequest_def)

lemma parseInt_examples:
  "parseInt ''970'' 10 = Some 970" "parseInt ''969'' 10 = Some 969"
  "parseInt ''2000'' 10 = Some 2000" "parseInt ''abc'' 10 = None"
  "parseInt ''1000'' 10 = Some 1000"
  by (simp_all add: parseInt_def isWhiteSpace_def isRadixDigit_def digitValue_def digitNat_def)

lemma edge_tolerance: "orDefault (timestampTolerance (config edge)) 30 = 30"
  by (simp add: edge_def DEFAULT_CONFIG_def orDefault_def)

section \<open>The store: what the three methods do to the list of entries\<close>

lemma lookupEntry_None: "lookupEntry c k = None \<longleftrightarrow> k \<notin> keysOf c"
  by (auto simp: lookupEntry_def keysOf_def find_None_iff)

lemma lookupEntry_Some: "lookupEntry c k = Some e \<Longrightarrow> e \<in> set (lru_items c) \<and> e_key e = k"
  by (auto simp: lookupEntry_def find_Some_iff)

lemma written_key [simp]: "e_key (written c now k v t) = k"
  by (simp add: written_def Let_def)

lemma written_rate:
  "written c now k v (Some 60000) = \<lparr>e_key = k, e_val = v, e_start = now, e_ttl = 60000\<rparr>"
  by (simp add: written_def)

lemma written_default:
  "0 < lru_ttl c \<Longrightarrow>
   written c now k v None = \<lparr>e_key = k, e_val = v, e_start = now, e_ttl = lru_ttl c\<rparr>"
  by (simp add: written_def)

lemma lru_set_new:
  "lookupEntry c k = None \<Longrightarrow>
   lru_items (lru_set c now k v t) =
     (if length (lru_items c) = lru_max c then tl (lru_items c) else lru_items c) @
     [written c now k v t]"
  by (simp add: lru_set_def written_def Let_def)

lemma lru_set_old:
  "lookupEntry c k = Some old \<Longrightarrow>
   lru_items (lru_set c now k v t) = without k (lru_items c) @ [written c now k v t]"
  by (simp add: lru_set_def written_def Let_def)

lemma lru_set_options [simp]:
  "lru_max (lru_set c now k v t) = lru_max c" "lru_ttl (lru_set c now k v t) = lru_ttl c"
  by (simp_all add: lru_set_def Let_def split: option.splits)

lemma lru_get_options [simp]:
  "lru_max (snd (lru_get c now k)) = lru_max c" "lru_ttl (snd (lru_get c now k)) = lru_ttl c"
  by (simp_all add: lru_get_def split: option.splits)


lemma length_without_less:
  "e \<in> set es \<Longrightarrow> e_key e = k \<Longrightarrow> length (without k es) < length es"
  unfolding without_def by (rule length_filter_less [of e]) simp_all

lemma lru_set_length:
  assumes "0 < lru_max c" and "length (lru_items c) \<le> lru_max c"
  shows "length (lru_items (lru_set c now k v t)) \<le> lru_max c"
proof (cases "lookupEntry c k")
  case None
  then show ?thesis using assms by (auto simp: lru_set_new)
next
  case (Some old)
  then have "length (without k (lru_items c)) < length (lru_items c)"
    using lookupEntry_Some [OF Some] by (auto intro: length_without_less)
  with assms Some show ?thesis by (simp add: lru_set_old)
qed

lemma lru_get_length: "length (lru_items (snd (lru_get c now k))) \<le> length (lru_items c)"
proof (cases "lookupEntry c k")
  case None
  then show ?thesis by (simp add: lru_get_def)
next
  case (Some e)
  then have "length (without k (lru_items c)) < length (lru_items c)"
    using lookupEntry_Some [OF Some] by (auto intro: length_without_less)
  with Some show ?thesis by (simp add: lru_get_def)
qed



lemma keys_without: "e_key ` set (without k es) = e_key ` set es - {k}"
  by (auto simp: without_def)

lemma keys_tl: "k \<notin> e_key ` set xs \<Longrightarrow> k \<notin> e_key ` set (tl xs)"
  by (cases xs) auto






lemma key_lru_set [simp]: "k \<in> keysOf (lru_set c now k v t)"
  by (cases "lookupEntry c k") (auto simp: keysOf_def lru_set_new lru_set_old)



lemma distinct_without: "distinct (map e_key es) \<Longrightarrow> distinct (map e_key (without k es))"
  unfolding without_def by (rule distinct_map_filter)

lemma distinct_lru_set:
  assumes "distinct (map e_key (lru_items c))"
  shows "distinct (map e_key (lru_items (lru_set c now k v t)))"
proof (cases "lookupEntry c k")
  case None
  then have k: "k \<notin> e_key ` set (lru_items c)"
    by (simp add: lookupEntry_None keysOf_def)
  have "distinct (map e_key (tl (lru_items c)))"
    using assms by (simp add: map_tl distinct_tl)
  with None k keys_tl [OF k] assms show ?thesis
    by (simp add: lru_set_new)
next
  case (Some old)
  with distinct_without [OF assms, of k] show ?thesis
    by (simp add: lru_set_old keys_without)
qed

lemma distinct_lru_get:
  assumes "distinct (map e_key (lru_items c))"
  shows "distinct (map e_key (lru_items (snd (lru_get c now k))))"
proof (cases "lookupEntry c k")
  case None
  with assms show ?thesis by (simp add: lru_get_def)
next
  case (Some e)
  with distinct_without [OF assms, of k] lookupEntry_Some [OF Some] show ?thesis
    by (simp add: lru_get_def keys_without)
qed

lemma lookupEntry_lru_set: "lookupEntry (lru_set c now k v t) k = Some (written c now k v t)"
proof -
  have "\<exists>ys. lru_items (lru_set c now k v t) = ys @ [written c now k v t] \<and> k \<notin> e_key ` set ys"
  proof (cases "lookupEntry c k")
    case None
    then have "k \<notin> e_key ` set (lru_items c)"
      by (simp add: lookupEntry_None keysOf_def)
    with None keys_tl [OF this] show ?thesis
      by (simp add: lru_set_new)
  next
    case (Some old)
    then show ?thesis
      by (simp add: lru_set_old keys_without)
  qed
  then obtain ys where ys: "lru_items (lru_set c now k v t) = ys @ [written c now k v t]"
    "k \<notin> e_key ` set ys" by blast
  have "find (\<lambda>x. e_key x = k) (ys @ [written c now k v t]) = Some (written c now k v t)"
    using ys(2) by (induction ys) auto
  then show ?thesis
    by (simp add: lookupEntry_def ys(1))
qed

lemma lru_get_value:
  "fst (lru_get c now k) =
     (case lookupEntry c k of
        None \<Rightarrow> None
      | Some e \<Rightarrow> if isStale now e then None else Some (e_val e))"
  by (simp add: lru_get_def split: option.splits)

lemma lru_get_live_lookup:
  assumes "lookupEntry c k = Some e" and "\<not> isStale now e"
  shows "lookupEntry (snd (lru_get c now k)) k = Some e"
proof -
  have "find (\<lambda>x. e_key x = k) (without k es @ [e]) = Some e" for es
    using lookupEntry_Some [OF assms(1)] by (induction es) (simp_all add: without_def)
  with assms show ?thesis
    by (simp add: lru_get_def lookupEntry_def [of "c\<lparr>lru_items := _\<rparr>"])
qed

lemma lru_get_stale_lookup:
  assumes "lookupEntry c k = Some e" and "isStale now e"
  shows "lookupEntry (snd (lru_get c now k)) k = None"
  using assms by (simp add: lru_get_def lookupEntry_None keysOf_def keys_without)

section \<open>The store of one validator over a sequence of requests\<close>

lemma orDefault_positive: "0 < d \<Longrightarrow> 0 < orDefault x d"
  by (simp add: orDefault_def split: option.splits)

lemma wellFormed_positive:
  "wellFormed this \<Longrightarrow> 0 < lru_max (nonceCache this) \<and> 0 < lru_ttl (nonceCache this)"
  using orDefault_positive [of 10000 "cacheSize (config this)"]
    orDefault_positive [of 30 "timestampTolerance (config this)"]
  by (simp add: wellFormed_def)

lemma wellFormed_set:
  assumes "wellFormed this"
  shows "wellFormed (this\<lparr>nonceCache := lru_set (nonceCache this) now k v t\<rparr>)"
  using assms wellFormed_positive [OF assms]
    lru_set_length [of "nonceCache this" now k v t]
    distinct_lru_set [of "nonceCache this" now k v t]
  by (simp add: wellFormed_def)

lemma wellFormed_get:
  assumes "wellFormed this"
  shows "wellFormed (this\<lparr>nonceCache := snd (lru_get (nonceCache this) now k)\<rparr>)"
  using assms lru_get_length [of "nonceCache this" now k]
    distinct_lru_get [of "nonceCache this" now k]
  by (simp add: wellFormed_def)

lemma checkRateLimit_frame:
  "config (snd (checkRateLimit this now ip)) = config this \<and>
   lru_max (nonceCache (snd (checkRateLimit this now ip))) = lru_max (nonceCache this) \<and>
   lru_ttl (nonceCache (snd (checkRateLimit this now ip))) = lru_ttl (nonceCache this)"
  by (simp add: checkRateLimit_def Let_def case_prod_beta)

lemma checkRateLimit_wellFormed:
  assumes "wellFormed this"
  shows "wellFormed (snd (checkRateLimit this now ip))"
proof -
  let ?this1 = "this\<lparr>nonceCache := snd (lru_get (nonceCache this) now (''rate:'' @ ip))\<rparr>"
  have w1: "wellFormed ?this1"
    using assms by (rule wellFormed_get)
  from wellFormed_set [OF w1] w1 show ?thesis
    by (simp add: checkRateLimit_def Let_def case_prod_beta)
qed

lemma admit_frame:
  "config (snd (admit this perfNow req k)) = config this \<and>
   lru_max (nonceCache (snd (admit this perfNow req k))) = lru_max (nonceCache this) \<and>
   lru_ttl (nonceCache (snd (admit this perfNow req k))) = lru_ttl (nonceCache this)"
  by (simp add: admit_def Let_def case_prod_beta checkRateLimit_frame)

lemma admit_wellFormed:
  assumes "wellFormed this"
  shows "wellFormed (snd (admit this perfNow req k))"
proof -
  let ?this1 = "this\<lparr>nonceCache := lru_set (nonceCache this) perfNow k JTrue None\<rparr>"
  have w1: "wellFormed ?this1"
    using assms by (rule wellFormed_set)
  from checkRateLimit_wellFormed [OF w1] w1 show ?thesis
    by (simp add: admit_def Let_def case_prod_beta)
qed

lemma carries_fields:
  "carries req ts n c s \<Longrightarrow>
   ts = orEmpty (headers req ''X-Timestamp'') \<and> n = orEmpty (headers req ''X-Nonce'') \<and>
   c = orEmpty (headers req ''X-Context'') \<and> s = orEmpty (headers req ''X-Stamp'')"
  by (simp add: carries_def orEmpty_def)

lemma handleRequest_passes:
  assumes "passes cr this dateNow perfNow req"
  shows "handleRequest cr this dateNow perfNow req = admit this perfNow req (nonceKey req)"
proof -
  let ?ts = "orEmpty (headers req ''X-Timestamp'')" and ?n = "orEmpty (headers req ''X-Nonce'')"
  let ?c = "orEmpty (headers req ''X-Context'')" and ?s = "orEmpty (headers req ''X-Stamp'')"
  from assms have p: "isProtectedEndpoint (config this) (pathname req)"
    and c: "carries req ?ts ?n ?c ?s"
    by (simp_all add: passes_def proofOK_def Let_def)
  from assms show ?thesis
    by (simp add: handleRequest_stages [OF p c] passes_def proofOK_def Let_def nonceKey_def)
qed

lemma handleRequest_fails:
  assumes "\<not> passes cr this dateNow perfNow req"
  shows "snd (handleRequest cr this dateNow perfNow req) = this \<and>
         fst (handleRequest cr this dateNow perfNow req) \<noteq>
           Some \<lparr>status = 429, message = ''Rate limit exceeded''\<rparr>"
proof (cases "isProtectedEndpoint (config this) (pathname req)")
  case False
  then show ?thesis by (simp add: handleRequest_unprotected)
next
  case True
  show ?thesis
  proof (cases "\<exists>ts n c s. carries req ts n c s")
    case False
    then show ?thesis
      by (auto simp: handleRequest_def carries_def Let_def split: option.splits)
  next
    case c: True
    then obtain ts n c s where car: "carries req ts n c s" by blast
    from carries_fields [OF car] car assms True
    have "timestampRejected (config this) dateNow ts \<or>
          lru_has (nonceCache this) perfNow (ts @ '':'' @ n) \<or>
          sha256 cr (pathname req @ '':'' @ ts @ '':'' @ n @ '':'' @ c) \<noteq> s \<or>
          \<not> hasLeadingZeros s (orDefault (difficulty (config this)) 4)"
      by (auto simp: passes_def proofOK_def Let_def nonceKey_def)
    then show ?thesis
      by (auto simp: handleRequest_stages [OF True car])
  qed
qed

lemma handleRequest_frame:
  "config (snd (handleRequest cr this dateNow perfNow req)) = config this \<and>
   lru_max (nonceCache (snd (handleRequest cr this dateNow perfNow req))) =
     lru_max (nonceCache this) \<and>
   lru_ttl (nonceCache (snd (handleRequest cr this dateNow perfNow req))) =
     lru_ttl (nonceCache this)"
  using handleRequest_passes [of cr this dateNow perfNow req]
    handleRequest_fails [of cr this dateNow perfNow req] admit_frame [of this perfNow req]
  by (cases "passes cr this dateNow perfNow req") auto

lemma handleRequest_wellFormed:
  "wellFormed this \<Longrightarrow> wellFormed (snd (handleRequest cr this dateNow perfNow req))"
  using handleRequest_passes [of cr this dateNow perfNow req]
    handleRequest_fails [of cr this dateNow perfNow req] admit_wellFormed [of this perfNow req]
  by (cases "passes cr this dateNow perfNow req") auto

lemma serve_Cons:
  "serve cr this ((d, p, req) # es) =
     (fst (handleRequest cr this d p req) # fst (serve cr (snd (handleRequest cr this d p req)) es),
      snd (serve cr (snd (handleRequest cr this d p req)) es))"
  by (simp add: case_prod_beta)

lemma serve_wellFormed:
  "wellFormed this \<Longrightarrow>
   wellFormed (snd (serve cr this es)) \<and> config (snd (serve cr this es)) = config this"
proof (induction es arbitrary: this)
  case Nil
  then show ?case by simp
next
  case (Cons e es)
  obtain dateNow perfNow req where e: "e = (dateNow, perfNow, req)"
    by (cases e)
  let ?this1 = "snd (handleRequest cr this dateNow perfNow req)"
  have "wellFormed ?this1"
    using Cons.prems by (rule handleRequest_wellFormed)
  from Cons.IH [OF this] handleRequest_frame [of cr this dateNow perfNow req]
  show ?case by (simp add: e serve_Cons del: serve.simps)
qed

lemma PowCloudflare_new_wellFormed:
  assumes "PowCloudflare_new cfg = Inr w"
  shows "wellFormed w \<and> lru_items (nonceCache w) = []"
  using assms
  by (auto simp: PowCloudflare_new_def wellFormed_def LRUCache_new_def split: sum.splits)

lemma reachable_wellFormed:
  assumes "PowCloudflare_new cfg = Inr w"
  shows "wellFormed (snd (serve cr w history)) \<and> config (snd (serve cr w history)) = config w"
  using PowCloudflare_new_wellFormed [OF assms] serve_wellFormed [of w cr history] by simp

section \<open>The rate limiter\<close>

lemma liveCount_lookup:
  "liveCount c now ip =
     (case lookupEntry c (rateKey ip) of
        None \<Rightarrow> 0
      | Some e \<Rightarrow> if isStale now e then 0 else toNumber (e_val e))"
  by (simp add: liveCount_def rateKey_def)

lemma checkRateLimit_rateKey:
  "checkRateLimit this now ip =
     (let limit = orDefault (requestsPerMinute (cloudflare (config this))) 30;
          found = fst (lru_get (nonceCache this) now (rateKey ip));
          cache1 = snd (lru_get (nonceCache this) now (rateKey ip));
          currentCount = (case found of None \<Rightarrow> 0 | Some v \<Rightarrow> toNumber v)
      in if limit \<le> currentCount then (True, this\<lparr>nonceCache := cache1\<rparr>)
         else (False,
               this\<lparr>nonceCache :=
                 lru_set cache1 now (rateKey ip) (JNum (currentCount + 1)) (Some 60000)\<rparr>))"
  by (simp add: checkRateLimit_def rateKey_def Let_def case_prod_beta)

lemma currentCount_liveCount:
  "(case fst (lru_get c now (rateKey ip)) of None \<Rightarrow> 0 | Some v \<Rightarrow> toNumber v) =
   liveCount c now ip"
  by (simp add: lru_get_value liveCount_lookup split: option.splits)

lemma checkRateLimit_count:
  "fst (checkRateLimit this now ip) =
     (orDefault (requestsPerMinute (cloudflare (config this))) 30
        \<le> liveCount (nonceCache this) now ip)"
  by (simp add: checkRateLimit_rateKey Let_def currentCount_liveCount)

lemma checkRateLimit_store:
  "nonceCache (snd (checkRateLimit this now ip)) =
     (if orDefault (requestsPerMinute (cloudflare (config this))) 30
           \<le> liveCount (nonceCache this) now ip
      then snd (lru_get (nonceCache this) now (rateKey ip))
      else lru_set (snd (lru_get (nonceCache this) now (rateKey ip))) now (rateKey ip)
             (JNum (liveCount (nonceCache this) now ip + 1)) (Some 60000))"
  by (simp add: checkRateLimit_rateKey Let_def currentCount_liveCount)

lemma liveCount_positive:
  assumes "0 < liveCount c now ip"
  obtains e where "lookupEntry c (rateKey ip) = Some e" and "\<not> isStale now e"
  using assms by (auto simp: liveCount_lookup split: option.splits if_splits)

lemma checkRateLimit_own:
  "lookupEntry (nonceCache (snd (checkRateLimit this now ip))) (rateKey ip) =
     (if orDefault (requestsPerMinute (cloudflare (config this))) 30
           \<le> liveCount (nonceCache this) now ip
      then lookupEntry (nonceCache this) (rateKey ip)
      else Some \<lparr>e_key = rateKey ip, e_val = JNum (liveCount (nonceCache this) now ip + 1),
                 e_start = now, e_ttl = 60000\<rparr>)"
proof (cases "orDefault (requestsPerMinute (cloudflare (config this))) 30
                \<le> liveCount (nonceCache this) now ip")
  case False
  then show ?thesis
    by (simp add: checkRateLimit_store lookupEntry_lru_set written_rate)
next
  case True
  have "0 < orDefault (requestsPerMinute (cloudflare (config this))) 30"
    by (rule orDefault_positive) simp
  with True have "0 < liveCount (nonceCache this) now ip" by simp
  then obtain e where "lookupEntry (nonceCache this) (rateKey ip) = Some e" "\<not> isStale now e"
    by (rule liveCount_positive)
  with True show ?thesis
    by (simp add: checkRateLimit_store lru_get_live_lookup)
qed



lemma admit_limited:
  assumes "rateLimiting (cloudflare (config this)) = Some True"
  shows "admit this p req k =
     (if fst (checkRateLimit (this\<lparr>nonceCache := lru_set (nonceCache this) p k JTrue None\<rparr>) p
                (callerOf req))
      then Some \<lparr>status = 429, message = ''Rate limit exceeded''\<rparr> else None,
      snd (checkRateLimit (this\<lparr>nonceCache := lru_set (nonceCache this) p k JTrue None\<rparr>) p
             (callerOf req)))"
  using assms by (simp add: admit_def Let_def case_prod_beta callerOf_def)

text \<open>A timestamp that parses does not start with \<open>r\<close>: a nonce key is no rate key.\<close>

lemma parseInt_letter: "parseInt (CHR ''r'' # rest) 10 = None"
  by (simp add: parseInt_def isWhiteSpace_def isRadixDigit_def digitValue_def)

lemma nonceKey_not_rateKey:
  assumes "proofOK cr cfg dateNow req"
  shows "nonceKey req \<noteq> rateKey ip"
proof
  let ?ts = "orEmpty (headers req ''X-Timestamp'')"
  assume eq: "nonceKey req = rateKey ip"
  from assms have ne: "?ts \<noteq> []" and p: "parseInt ?ts 10 \<noteq> None"
    by (auto simp: proofOK_def Let_def carries_def timestampRejected_def split: option.splits)
  from ne obtain a rest where ts: "?ts = a # rest" by (cases ?ts) auto
  from eq have "a = CHR ''r''"
    by (simp add: nonceKey_def rateKey_def ts)
  with p ts show False by (simp add: parseInt_letter)
qed


section \<open>What one request does to the counter of a caller\<close>





section \<open>The store, entry by entry\<close>

lemma without_absent: "k \<notin> e_key ` set es \<Longrightarrow> without k es = es"
  by (induction es) (auto simp: without_def)

lemma without_append: "without k (xs @ ys) = without k xs @ without k ys"
  by (simp add: without_def)

lemma without_single: "without k [e] = (if e_key e = k then [] else [e])"
  by (simp add: without_def)

lemma find_first:
  "k \<notin> e_key ` set xs \<Longrightarrow> e_key e = k \<Longrightarrow> find (\<lambda>x. e_key x = k) (xs @ e # ys) = Some e"
  by (induction xs) auto

lemma rateEntry_rateKey:
  "rateEntry ip n t = \<lparr>e_key = rateKey ip, e_val = JNum n, e_start = t, e_ttl = 60000\<rparr>"
  by (simp add: rateEntry_def rateKey_def)

text \<open>
  \<open>checkRateLimit\<close> on a store that has no entry for the caller: the first count is
  written, after an eviction when the store is full.
\<close>

lemma checkRateLimit_absent:
  assumes "rateKey ip \<notin> keysOf (nonceCache this)"
  shows "checkRateLimit this now ip =
     (False, this\<lparr>nonceCache := (nonceCache this)\<lparr>lru_items :=
        (if length (lru_items (nonceCache this)) = lru_max (nonceCache this)
         then tl (lru_items (nonceCache this)) else lru_items (nonceCache this)) @
        [rateEntry ip 1 now]\<rparr>\<rparr>)"
proof -
  have l: "lookupEntry (nonceCache this) (rateKey ip) = None"
    using assms by (simp add: lookupEntry_None)
  have g: "lru_get (nonceCache this) now (rateKey ip) = (None, nonceCache this)"
    using l by (simp add: lru_get_def)
  have p: "0 < orDefault (requestsPerMinute (cloudflare (config this))) 30"
    by (rule orDefault_positive) simp
  show ?thesis
    using l p by (simp add: checkRateLimit_rateKey Let_def g lru_set_def rateEntry_rateKey)
qed

lemma lru_set_shape:
  "\<exists>ys. lru_items (lru_set c now k v t) = ys @ [written c now k v t] \<and> k \<notin> e_key ` set ys"
proof (cases "lookupEntry c k")
  case None
  then have "k \<notin> e_key ` set (lru_items c)"
    by (simp add: lookupEntry_None keysOf_def)
  with None keys_tl [OF this] show ?thesis
    by (simp add: lru_set_new)
next
  case (Some old)
  then show ?thesis
    by (simp add: lru_set_old keys_without)
qed

text \<open>
  The rate limiter does not remove the entry that was written just before it, when the
  store has room for two.
\<close>

lemma checkRateLimit_keeps:
  assumes shape: "lru_items (nonceCache this) = ys @ [N]"
    and N: "e_key N = k" and ys: "k \<notin> e_key ` set ys"
    and ne: "k \<noteq> rateKey ip"
    and len: "length (lru_items (nonceCache this)) \<le> lru_max (nonceCache this)"
    and two: "2 \<le> lru_max (nonceCache this)"
  shows "lookupEntry (nonceCache (snd (checkRateLimit this now ip))) k = Some N"
proof (cases "lookupEntry (nonceCache this) (rateKey ip)")
  case None
  then have a: "rateKey ip \<notin> keysOf (nonceCache this)"
    by (simp add: lookupEntry_None)
  have "(if length (lru_items (nonceCache this)) = lru_max (nonceCache this)
         then tl (lru_items (nonceCache this)) else lru_items (nonceCache this)) =
        (if length (lru_items (nonceCache this)) = lru_max (nonceCache this) then tl ys else ys) @ [N]"
    using two by (cases ys) (auto simp: shape)
  moreover have "k \<notin> e_key ` set (if length (lru_items (nonceCache this)) = lru_max (nonceCache this)
                                      then tl ys else ys)"
    using ys keys_tl [of k ys] by simp
  ultimately show ?thesis
    using N find_first [of k _ N "[rateEntry ip 1 now]"]
    by (simp add: checkRateLimit_absent [OF a] lookupEntry_def)
next
  case (Some r)
  let ?zs = "without (rateKey ip) ys"
  have w: "without (rateKey ip) (lru_items (nonceCache this)) = ?zs @ [N]"
    using ne N by (simp add: shape without_append without_single)
  have zs: "k \<notin> e_key ` set ?zs"
    using ys by (simp add: keys_without)
  have rk: "e_key r = rateKey ip"
    using lookupEntry_Some [OF Some] by simp
  have lim: "0 < orDefault (requestsPerMinute (cloudflare (config this))) 30"
    by (rule orDefault_positive) simp
  show ?thesis
  proof (cases "isStale now r")
    case True
    have g: "lru_get (nonceCache this) now (rateKey ip) =
               (None, (nonceCache this)\<lparr>lru_items := ?zs @ [N]\<rparr>)"
      using Some True w by (simp add: lru_get_def)
    have l2: "lookupEntry ((nonceCache this)\<lparr>lru_items := ?zs @ [N]\<rparr>) (rateKey ip) = None"
      using ne N by (auto simp: lookupEntry_def find_None_iff without_def)
    have "length (?zs @ [N]) < length (lru_items (nonceCache this))"
      using length_without_less [of r "lru_items (nonceCache this)" "rateKey ip"]
        lookupEntry_Some [OF Some] by (simp add: w)
    with len have nf: "length (?zs @ [N]) \<noteq> lru_max (nonceCache this)"
      by simp
    have "nonceCache (snd (checkRateLimit this now ip)) =
            (nonceCache this)\<lparr>lru_items := ?zs @ [N] @ [rateEntry ip 1 now]\<rparr>"
      using lim l2 nf by (simp add: checkRateLimit_rateKey Let_def g lru_set_def rateEntry_rateKey)
    then show ?thesis
      using N zs find_first [of k ?zs N "[rateEntry ip 1 now]"] by (simp add: lookupEntry_def)
  next
    case False
    have g: "lru_get (nonceCache this) now (rateKey ip) =
               (Some (e_val r), (nonceCache this)\<lparr>lru_items := ?zs @ [N] @ [r]\<rparr>)"
      using Some False w by (simp add: lru_get_def)
    have l2: "lookupEntry ((nonceCache this)\<lparr>lru_items := ?zs @ [N] @ [r]\<rparr>) (rateKey ip) = Some r"
    proof -
      have "rateKey ip \<notin> e_key ` set (?zs @ [N])"
        using ne N by (auto simp: without_def)
      from find_first [OF this rk, of "[]"] show ?thesis
        by (simp add: lookupEntry_def)
    qed
    have w2: "without (rateKey ip) (?zs @ [N] @ [r]) = ?zs @ [N]"
      using ne N rk by (simp add: without_append without_single) (simp add: without_def)
    have "\<exists>e. lru_items (nonceCache (snd (checkRateLimit this now ip))) = ?zs @ [N] @ [e]"
      using l2 w2 by (simp add: checkRateLimit_rateKey Let_def g lru_set_def)
    then obtain e where
      "lru_items (nonceCache (snd (checkRateLimit this now ip))) = ?zs @ N # [e]"
      by auto
    then show ?thesis
      using N zs find_first [of k ?zs N "[e]"] by (simp add: lookupEntry_def)
  qed
qed

lemma admit_keeps_nonce:
  assumes wf: "wellFormed this"
    and two: "2 \<le> lru_max (nonceCache this) \<or> rateLimiting (cloudflare (config this)) \<noteq> Some True"
    and ne: "k \<noteq> rateKey (callerOf req)"
  shows "lookupEntry (nonceCache (snd (admit this p req k))) k =
           Some \<lparr>e_key = k, e_val = JTrue, e_start = p, e_ttl = lru_ttl (nonceCache this)\<rparr>"
proof -
  let ?N = "\<lparr>e_key = k, e_val = JTrue, e_start = p, e_ttl = lru_ttl (nonceCache this)\<rparr>"
  let ?this1 = "this\<lparr>nonceCache := lru_set (nonceCache this) p k JTrue None\<rparr>"
  have N: "written (nonceCache this) p k JTrue None = ?N"
    using wellFormed_positive [OF wf] by (simp add: written_default)
  show ?thesis
  proof (cases "rateLimiting (cloudflare (config this)) = Some True")
    case False
    then show ?thesis
      by (simp add: admit_def Let_def lookupEntry_lru_set N)
  next
    case True
    with two have m: "2 \<le> lru_max (nonceCache this)" by simp
    from lru_set_shape [of "nonceCache this" p k JTrue None]
    obtain ys where ys: "lru_items (nonceCache ?this1) = ys @ [?N]" "k \<notin> e_key ` set ys"
      by (auto simp: N)
    have len: "length (lru_items (nonceCache ?this1)) \<le> lru_max (nonceCache ?this1)"
      using wellFormed_set [OF wf, of p k JTrue None] by (simp add: wellFormed_def)
    have "lookupEntry (nonceCache (snd (checkRateLimit ?this1 p (callerOf req)))) k = Some ?N"
      using checkRateLimit_keeps [OF ys(1) _ ys(2) ne len] m by simp
    then show ?thesis
      by (simp add: admit_limited [OF True])
  qed
qed

lemma lru_set_items_update: "(lru_set c now k v t)\<lparr>lru_items := xs\<rparr> = c\<lparr>lru_items := xs\<rparr>"
  by (simp add: lru_set_def Let_def split: option.splits)

text \<open>In a store with room for one entry the counter takes the place of the nonce key.\<close>

lemma admit_one_entry:
  assumes wf: "wellFormed this"
    and one: "lru_max (nonceCache this) = 1"
    and rl: "rateLimiting (cloudflare (config this)) = Some True"
    and ne: "k \<noteq> rateKey (callerOf req)"
    and nl: "\<not> lru_has (nonceCache this) p k"
  shows "admit this p req k =
           (None, this\<lparr>nonceCache := (nonceCache this)\<lparr>lru_items := [rateEntry (callerOf req) 1 p]\<rparr>\<rparr>)"
proof -
  define N where "N = written (nonceCache this) p k JTrue None"
  define this1 where "this1 = this\<lparr>nonceCache := lru_set (nonceCache this) p k JTrue None\<rparr>"
  from wf one have len: "length (lru_items (nonceCache this)) \<le> 1"
    by (simp add: wellFormed_def)
  have i1: "lru_items (nonceCache this1) = [N]"
  proof (cases "lookupEntry (nonceCache this) k")
    case None
    with len one show ?thesis
      by (cases "lru_items (nonceCache this)") (simp_all add: this1_def lru_set_new N_def)
  next
    case (Some old)
    with lookupEntry_Some [OF Some] len have "lru_items (nonceCache this) = [old]" "e_key old = k"
      by (cases "lru_items (nonceCache this)"; simp)+
    with Some show ?thesis
      by (simp add: this1_def lru_set_old N_def without_single)
  qed
  have a: "rateKey (callerOf req) \<notin> keysOf (nonceCache this1)"
    using ne by (simp add: keysOf_def i1 N_def)
  have m1: "lru_max (nonceCache this1) = 1"
    using one by (simp add: this1_def)
  have c: "checkRateLimit this1 p (callerOf req) =
          (False, this1\<lparr>nonceCache := (nonceCache this1)\<lparr>lru_items :=
             [rateEntry (callerOf req) 1 p]\<rparr>\<rparr>)"
    by (simp add: checkRateLimit_absent [OF a] i1 m1)
  have e: "this1\<lparr>nonceCache := (nonceCache this1)\<lparr>lru_items := xs\<rparr>\<rparr> =
           this\<lparr>nonceCache := (nonceCache this)\<lparr>lru_items := xs\<rparr>\<rparr>" for xs
    by (simp add: this1_def lru_set_items_update)
  show ?thesis
    by (simp only: admit_limited [OF rl] this1_def [symmetric] c e fst_conv snd_conv if_False)
qed


section \<open>Room in the store\<close>







section \<open>Concrete requests\<close>

lemma toy_stamp_difficulty: "hasLeadingZeros (''0a'' @ s) 4"
proof -
  have "binaryString ''0a'' = ''00001010''"
    by (simp add: binaryString_concat nibble_hex isRadixDigit_def digitValue_def
        nibbleBits_def digitNat_def bitChar_def)
  then show ?thesis
    by (subst hasLeadingZeros_append)
       (simp_all add: hasLeadingZeros_def leadingZerosFrom.simps charAt_def)
qed

lemma toy_handleRequest:
  assumes "isProtectedEndpoint (config this) ''/api/data''"
    and "orDefault (difficulty (config this)) 4 = 4"
    and "ts \<noteq> []" and "n \<noteq> []"
    and "\<not> timestampRejected (config this) dateNow ts"
    and "\<not> lru_has (nonceCache this) perfNow (ts @ '':'' @ n)"
  shows "handleRequest toyCrypto this dateNow perfNow (powRequest ts n ip) =
           admit this perfNow (powRequest ts n ip) (ts @ '':'' @ n)"
proof -
  have p: "isProtectedEndpoint (config this) (pathname (powRequest ts n ip))"
    using assms(1) by (simp add: powRequest_def)
  have c: "carries (powRequest ts n ip) ts n ''c'' (''0a/api/data:'' @ ts @ '':'' @ n @ '':c'')"
    using assms(3,4) by (rule powRequest_carries)
  have s: "sha256 toyCrypto (pathname (powRequest ts n ip) @ '':'' @ ts @ '':'' @ n @ '':'' @ ''c'') =
             ''0a/api/data:'' @ ts @ '':'' @ n @ '':c''"
    by (simp add: sha256_def toyCrypto_def powRequest_def)
  have d: "hasLeadingZeros (''0a/api/data:'' @ ts @ '':'' @ n @ '':c'') 4"
    using toy_stamp_difficulty [of "''/api/data:'' @ ts @ '':'' @ n @ '':c''"] by simp
  show ?thesis
    unfolding handleRequest_stages [OF p c] using assms(2,5,6) s d by simp
qed

lemma toy_proofOK:
  assumes "isProtectedEndpoint cfg ''/api/data''" and "orDefault (difficulty cfg) 4 = 4"
    and "ts \<noteq> []" and "n \<noteq> []" and "\<not> timestampRejected cfg dateNow ts"
  shows "proofOK toyCrypto cfg dateNow (powRequest ts n ip)"
proof -
  have h: "headers (powRequest ts n ip) ''X-Timestamp'' = Some ts"
    "headers (powRequest ts n ip) ''X-Nonce'' = Some n"
    "headers (powRequest ts n ip) ''X-Context'' = Some ''c''"
    "headers (powRequest ts n ip) ''X-Stamp'' = Some (''0a/api/data:'' @ ts @ '':'' @ n @ '':c'')"
    "pathname (powRequest ts n ip) = ''/api/data''"
    by (simp_all add: powRequest_def)
  have d: "hasLeadingZeros (''0a/api/data:'' @ ts @ '':'' @ n @ '':c'') 4"
    using toy_stamp_difficulty [of "''/api/data:'' @ ts @ '':'' @ n @ '':c''"] by simp
  show ?thesis
    using assms d powRequest_carries [OF assms(3,4), of ip]
    by (simp add: proofOK_def h orEmpty_def sha256_def toyCrypto_def)
qed

lemma powRequest_keys:
  "nonceKey (powRequest ts n ip) = ts @ '':'' @ n"
  "callerOf (powRequest ts n ip) = ip"
  "orEmpty (headers (powRequest ts n ip) ''X-Timestamp'') = ts"
  by (simp_all add: nonceKey_def callerOf_def powRequest_def orEmpty_def)

lemma parseInt_more:
  "parseInt ''1059'' 10 = Some 1059" "parseInt ''1060'' 10 = Some 1060"
  "parseInt ''1001'' 10 = Some 1001"
  by (simp_all add: parseInt_def isWhiteSpace_def isRadixDigit_def digitValue_def digitNat_def)

lemmas store_simps =
  lru_has_def lru_get_def lru_set_def lookupEntry_def without_def isStale_def toNumber_def
  LRUCache_new_def

lemma edge_facts:
  "isProtectedEndpoint (config edge) ''/api/data''"
  "orDefault (difficulty (config edge)) 4 = 4"
  "\<not> timestampRejected (config edge) 1000000 ''1000''"
  "rateLimiting (cloudflare (config edge)) = Some True"
  "orDefault (requestsPerMinute (cloudflare (config edge))) 30 = 30"
  by (simp_all add: edge_def DEFAULT_CONFIG_def isProtectedEndpoint_def orDefault_def
      timestampRejected_def parseInt_examples)

lemma edge_exact:
  "exactAt (config edge) 1000000 ''1000''" "exactAt (config edge) 1000000 ''970''"
  "exactAt (config edge) 1000000 ''969''" "exactAt (config edge) 1000000 ''2000''"
  "exactAt (config edge) 1001000 ''1000''" "exactAt (config edge) 1030000 ''1000''"
  "exactAt (config edge) 1031000 ''1000''"
  by (simp_all add: exactAt_def safeInteger_def edge_tolerance parseInt_examples)

section \<open>The timestamp step\<close>

text \<open>
  Claim C4, as amended.  For a protected request that carries the four fields, with
  numbers in the exact range, the timestamp step answers with its 403 exactly when
  \<open>parseInt\<close> reads no number from the timestamp, or the number read lies more than the
  tolerance behind the clock (the tolerance is the configured one, 30 when it is unset or
  0); the rejection leaves the validator and its store as they were.  So a timestamp that
  does not parse is rejected with 403 and not with 400; a timestamp exactly the tolerance
  behind passes and one second more fails; a timestamp ahead of the clock passes this step.
\<close>

theorem timestamp_step:
  assumes "isProtectedEndpoint (config this) (pathname req)" and "carries req ts n c s"
    and "exactAt (config this) dateNow ts"
  shows "(fst (handleRequest cr this dateNow perfNow req) =
            Some \<lparr>status = 403, message = ''Timestamp expired or invalid''\<rparr>
          \<longleftrightarrow> timestampRejected (config this) dateNow ts) \<and>
         (timestampRejected (config this) dateNow ts \<longrightarrow>
            handleRequest cr this dateNow perfNow req =
              (Some \<lparr>status = 403, message = ''Timestamp expired or invalid''\<rparr>, this)) \<and>
         (parseInt ts 10 = None \<longrightarrow> timestampRejected (config this) dateNow ts) \<and>
         (\<forall>t. parseInt ts 10 = Some t \<longrightarrow>
            (timestampRejected (config this) dateNow ts \<longleftrightarrow>
               int (orDefault (timestampTolerance (config this)) 30) < int (dateNow div 1000) - t) \<and>
            (int (dateNow div 1000) - t = int (orDefault (timestampTolerance (config this)) 30)
               \<longrightarrow> \<not> timestampRejected (config this) dateNow ts) \<and>
            (int (dateNow div 1000) - t = int (orDefault (timestampTolerance (config this)) 30) + 1
               \<longrightarrow> timestampRejected (config this) dateNow ts) \<and>
            (int (dateNow div 1000) < t \<longrightarrow> \<not> timestampRejected (config this) dateNow ts))"
proof -
  have "fst (handleRequest cr this dateNow perfNow req) =
            Some \<lparr>status = 403, message = ''Timestamp expired or invalid''\<rparr>
          \<longleftrightarrow> timestampRejected (config this) dateNow ts"
    using admit_result [of this perfNow req "ts @ '':'' @ n"]
    by (auto simp: handleRequest_stages [OF assms(1,2)])
  moreover have "timestampRejected (config this) dateNow ts \<longrightarrow>
            handleRequest cr this dateNow perfNow req =
              (Some \<lparr>status = 403, message = ''Timestamp expired or invalid''\<rparr>, this)"
    by (simp add: handleRequest_stages [OF assms(1,2)])
  ultimately show ?thesis
    by (simp add: timestampRejected_def)
qed

section \<open>The timestamp step on concrete requests\<close>

theorem timestamp_step_witness:
  "isProtectedEndpoint (config edge) (pathname (powRequest ''970'' ''n1'' ''1.2.3.4'')) \<and>
   carries (powRequest ''970'' ''n1'' ''1.2.3.4'') ''970'' ''n1'' ''c'' ''0a/api/data:970:n1:c'' \<and>
   exactAt (config edge) 1000000 ''970'' \<and>
   \<not> timestampRejected (config edge) 1000000 ''970'' \<and>
   fst (handleRequest toyCrypto edge 1000000 5 (powRequest ''970'' ''n1'' ''1.2.3.4'')) \<noteq>
     Some \<lparr>status = 403, message = ''Timestamp expired or invalid''\<rparr> \<and>
   handleRequest toyCrypto edge 1000000 5 (powRequest ''969'' ''n1'' ''1.2.3.4'') =
     (Some \<lparr>status = 403, message = ''Timestamp expired or invalid''\<rparr>, edge) \<and>
   fst (handleRequest toyCrypto edge 1000000 5 (powRequest ''2000'' ''n1'' ''1.2.3.4'')) \<noteq>
     Some \<lparr>status = 403, message = ''Timestamp expired or invalid''\<rparr>"
proof -
  have c1: "carries (powRequest ''970'' ''n1'' ''1.2.3.4'') ''970'' ''n1'' ''c''
              ''0a/api/data:970:n1:c''"
    using powRequest_carries [of "''970''" "''n1''" "''1.2.3.4''"] by simp
  have c2: "carries (powRequest ''969'' ''n1'' ''1.2.3.4'') ''969'' ''n1'' ''c''
              ''0a/api/data:969:n1:c''"
    using powRequest_carries [of "''969''" "''n1''" "''1.2.3.4''"] by simp
  have c3: "carries (powRequest ''2000'' ''n1'' ''1.2.3.4'') ''2000'' ''n1'' ''c''
              ''0a/api/data:2000:n1:c''"
    using powRequest_carries [of "''2000''" "''n1''" "''1.2.3.4''"] by simp
  show ?thesis
    using timestamp_step [OF edge_protects c1 edge_exact(2), of toyCrypto 5]
      timestamp_step [OF edge_protects c2 edge_exact(3), of toyCrypto 5]
      timestamp_step [OF edge_protects c3 edge_exact(4), of toyCrypto 5]
      c1 edge_protects [of "''970''" "''n1''" "''1.2.3.4''"] edge_exact(2)
    by (simp add: parseInt_examples edge_tolerance)
qed

text \<open>
  The claim as written fails: a timestamp that does not parse is answered with 403, not
  with 400.
\<close>

theorem unparsable_timestamp_is_403:
  "parseInt ''abc'' 10 = None \<and>
   carries (powRequest ''abc'' ''n1'' ''1.2.3.4'') ''abc'' ''n1'' ''c'' ''0a/api/data:abc:n1:c'' \<and>
   handleRequest toyCrypto edge 1000000 5 (powRequest ''abc'' ''n1'' ''1.2.3.4'') =
     (Some \<lparr>status = 403, message = ''Timestamp expired or invalid''\<rparr>, edge)"
proof -
  have c: "carries (powRequest ''abc'' ''n1'' ''1.2.3.4'') ''abc'' ''n1'' ''c''
             ''0a/api/data:abc:n1:c''"
    using powRequest_carries [of "''abc''" "''n1''" "''1.2.3.4''"] by simp
  show ?thesis
    using c by (simp add: handleRequest_stages [OF edge_protects c] timestampRejected_def
        parseInt_examples)
qed

section \<open>Accepted requests\<close>

lemma handleRequest_accepted:
  "accepted cr this dateNow perfNow req ts n c s \<Longrightarrow>
   handleRequest cr this dateNow perfNow req = admit this perfNow req (ts @ '':'' @ n)"
  using handleRequest_stages [of this req ts n c s cr dateNow perfNow]
  by (simp add: accepted_def)

text \<open>
  Claim C1 says that an accepted request goes to the origin with \<open>X-HMAC\<close> set.  The
  code returns \<open>null\<close> for it, so the worker fetches the incoming request itself: a
  request that came without \<open>X-HMAC\<close> reaches the origin without it, and differs from
  the signed copy that \<open>handleRequest\<close> built.
\<close>

theorem accepted_request_is_forwarded_unsigned:
  assumes "accepted cr this dateNow perfNow req ts n c s"
    and "fst (handleRequest cr this dateNow perfNow req) \<noteq>
           Some \<lparr>status = 429, message = ''Rate limit exceeded''\<rparr>"
  shows "fst (handleRequest cr this dateNow perfNow req) = None \<and>
         fst (worker_fetch cr this dateNow perfNow req) = FetchOrigin req \<and>
         headers (modifiedRequest cr (config this) req ts n c) ''X-HMAC'' =
           Some (hmac cr (ts @ '':'' @ n @ '':'' @ c) (orEmpty (secret (config this)))
                   (hmacAlgorithm (config this))) \<and>
         (headers req ''X-HMAC'' = None \<longrightarrow> req \<noteq> modifiedRequest cr (config this) req ts n c)"
proof -
  have n: "fst (handleRequest cr this dateNow perfNow req) = None"
    using assms admit_result [of this perfNow req "ts @ '':'' @ n"]
    by (simp add: handleRequest_accepted)
  then have w: "fst (worker_fetch cr this dateNow perfNow req) = FetchOrigin req"
    by (cases "handleRequest cr this dateNow perfNow req") (simp add: worker_fetch_def)
  have h: "headers (modifiedRequest cr (config this) req ts n c) ''X-HMAC'' =
           Some (hmac cr (ts @ '':'' @ n @ '':'' @ c) (orEmpty (secret (config this)))
                   (hmacAlgorithm (config this)))"
    by (simp add: modifiedRequest_def Let_def)
  then have "headers req ''X-HMAC'' = None \<longrightarrow> req \<noteq> modifiedRequest cr (config this) req ts n c"
    by auto
  with n w h show ?thesis by simp
qed

theorem accepted_request_is_forwarded_unsigned_witness:
  "accepted toyCrypto edge 1000000 5 (powRequest ''1000'' ''n1'' ''1.2.3.4'')
     ''1000'' ''n1'' ''c'' ''0a/api/data:1000:n1:c'' \<and>
   fst (handleRequest toyCrypto edge 1000000 5 (powRequest ''1000'' ''n1'' ''1.2.3.4'')) = None \<and>
   fst (worker_fetch toyCrypto edge 1000000 5 (powRequest ''1000'' ''n1'' ''1.2.3.4'')) =
     FetchOrigin (powRequest ''1000'' ''n1'' ''1.2.3.4'') \<and>
   headers (powRequest ''1000'' ''n1'' ''1.2.3.4'') ''X-HMAC'' = None \<and>
   headers (modifiedRequest toyCrypto (config edge) (powRequest ''1000'' ''n1'' ''1.2.3.4'')
              ''1000'' ''n1'' ''c'') ''X-HMAC'' = Some ''h256:s:1000:n1:c''"
proof -
  let ?req = "powRequest ''1000'' ''n1'' ''1.2.3.4''"
  have car: "carries ?req ''1000'' ''n1'' ''c'' ''0a/api/data:1000:n1:c''"
    using powRequest_carries [of "''1000''" "''n1''" "''1.2.3.4''"] by simp
  have d: "hasLeadingZeros ''0a/api/data:1000:n1:c'' 4"
    using toy_stamp_difficulty [of "''/api/data:1000:n1:c''"] by simp
  have a: "accepted toyCrypto edge 1000000 5 ?req ''1000'' ''n1'' ''c'' ''0a/api/data:1000:n1:c''"
    using car d edge_facts
    by (simp add: accepted_def edge_protects)
       (simp add: edge_def LRUCache_new_def lru_has_def lookupEntry_def sha256_def toyCrypto_def
         powRequest_def)
  have r: "fst (handleRequest toyCrypto edge 1000000 5 ?req) \<noteq>
           Some \<lparr>status = 429, message = ''Rate limit exceeded''\<rparr>"
    unfolding handleRequest_accepted [OF a]
    by (simp add: admit_def checkRateLimit_def edge_facts Let_def)
       (simp add: edge_def LRUCache_new_def lru_get_def lookupEntry_def lru_set_def Let_def)
  have h: "hmac toyCrypto (''1000'' @ '':'' @ ''n1'' @ '':'' @ ''c'') (orEmpty (secret (config edge)))
             (hmacAlgorithm (config edge)) = ''h256:s:1000:n1:c''"
    by (simp add: hmac_def toyCrypto_def edge_def DEFAULT_CONFIG_def orEmpty_def)
  have x: "headers ?req ''X-HMAC'' = None"
    by (simp add: powRequest_def)
  from accepted_request_is_forwarded_unsigned [OF a r] a h x show ?thesis
    by simp
qed

section \<open>The window of the rate limiter\<close>

text \<open>
  Claim C7 says that the window of a caller is fixed: 60 seconds from the first
  increment, after which the count is zero again.  The code does otherwise.
  \<open>checkRateLimit\<close> reports the limit exceeded exactly when the live count of the
  caller has reached the limit (\<open>requestsPerMinute\<close>, 30 when unset or 0).  When it
  admits, it writes the count plus one under the caller's key with a lifetime of 60000 ms
  that starts at this call, so the count is still there at a later reading unless more
  than 60000 ms have passed since this, the latest, admission (and the call was not made
  at the clock reading 0, where the entry never gets stale).  When it rejects, the entry
  stays as it was.
\<close>

theorem rate_window_restarts_on_admission:
  "(fst (checkRateLimit this now ip) \<longleftrightarrow>
      orDefault (requestsPerMinute (cloudflare (config this))) 30
        \<le> liveCount (nonceCache this) now ip) \<and>
   (\<not> fst (checkRateLimit this now ip) \<longrightarrow>
      lookupEntry (nonceCache (snd (checkRateLimit this now ip))) (rateKey ip) =
        Some \<lparr>e_key = rateKey ip,
              e_val = JNum (liveCount (nonceCache this) now ip + 1),
              e_start = now, e_ttl = 60000\<rparr> \<and>
      (\<forall>later. liveCount (nonceCache (snd (checkRateLimit this now ip))) later ip =
         (if now \<noteq> 0 \<and> 60000 < later - now then 0
          else liveCount (nonceCache this) now ip + 1))) \<and>
   (fst (checkRateLimit this now ip) \<longrightarrow>
      lookupEntry (nonceCache (snd (checkRateLimit this now ip))) (rateKey ip) =
        lookupEntry (nonceCache this) (rateKey ip) \<and>
      (\<forall>later. liveCount (nonceCache (snd (checkRateLimit this now ip))) later ip =
         liveCount (nonceCache this) later ip))"
proof (intro conjI impI)
  let ?limit = "orDefault (requestsPerMinute (cloudflare (config this))) 30"
  let ?n = "liveCount (nonceCache this) now ip"
  show "fst (checkRateLimit this now ip) \<longleftrightarrow> ?limit \<le> ?n"
    by (rule checkRateLimit_count)
  {
    assume "\<not> fst (checkRateLimit this now ip)"
    then have lt: "\<not> ?limit \<le> ?n" by (simp add: checkRateLimit_count)
    then show l: "lookupEntry (nonceCache (snd (checkRateLimit this now ip))) (rateKey ip) =
        Some \<lparr>e_key = rateKey ip, e_val = JNum (?n + 1), e_start = now, e_ttl = 60000\<rparr>"
      by (simp add: checkRateLimit_own)
    show "\<forall>later. liveCount (nonceCache (snd (checkRateLimit this now ip))) later ip =
         (if now \<noteq> 0 \<and> 60000 < later - now then 0 else ?n + 1)"
      using l by (simp add: liveCount_lookup isStale_def toNumber_def)
  }
  {
    assume "fst (checkRateLimit this now ip)"
    then have ge: "?limit \<le> ?n" by (simp add: checkRateLimit_count)
    then show l: "lookupEntry (nonceCache (snd (checkRateLimit this now ip))) (rateKey ip) =
        lookupEntry (nonceCache this) (rateKey ip)"
      by (simp add: checkRateLimit_own)
    show "\<forall>later. liveCount (nonceCache (snd (checkRateLimit this now ip))) later ip =
         liveCount (nonceCache this) later ip"
      using l by (simp add: liveCount_lookup)
  }
qed

section \<open>Concrete runs of the rate limiter\<close>

lemma slowConfig_facts:
  "isProtectedEndpoint slowConfig ''/api/data''"
  "orDefault (difficulty slowConfig) 4 = 4"
  "rateLimiting (cloudflare slowConfig) = Some True"
  "orDefault (requestsPerMinute (cloudflare slowConfig)) 30 = 2"
  "orDefault (timestampTolerance slowConfig) 30 = 30"
  "orDefault (cacheSize slowConfig) 10000 = 10000"
  by (simp_all add: slowConfig_def DEFAULT_CONFIG_def isProtectedEndpoint_def orDefault_def)


lemma slowEdge_store: "slowEdge = slowStore []"
  by (simp add: slowEdge_def slowStore_def LRUCache_new_def)

lemma slowStore_config [simp]: "config (slowStore xs) = slowConfig"
  by (simp add: slowStore_def)

lemma slow_fresh:
  "\<not> timestampRejected slowConfig 1000000 ''1000''"
  "\<not> timestampRejected slowConfig 1001000 ''1001''"
  "\<not> timestampRejected slowConfig 1059000 ''1059''"
  "\<not> timestampRejected slowConfig 1060500 ''1060''"
  by (simp_all add: timestampRejected_def slowConfig_facts parseInt_examples parseInt_more)



lemma late_1:
  "handleRequest toyCrypto (slowStore []) 1000000 1000 (powRequest ''1000'' ''n1'' ''1.2.3.4'') =
     (None, slowStore [nonceEntry ''1000:n1'' 1000, rateEntry ''1.2.3.4'' 1 1000])"
  by (subst toy_handleRequest)
     (simp_all add: slowConfig_facts slow_fresh admit_def checkRateLimit_def Let_def
       slowStore_def store_simps powRequest_def orEmpty_def nonceEntry_def rateEntry_def)

lemma late_2:
  "handleRequest toyCrypto (slowStore [nonceEntry ''1000:n1'' 1000, rateEntry ''1.2.3.4'' 1 1000])
     1059000 60000 (powRequest ''1059'' ''n2'' ''1.2.3.4'') =
     (None, slowStore [nonceEntry ''1000:n1'' 1000, nonceEntry ''1059:n2'' 60000,
                       rateEntry ''1.2.3.4'' 2 60000])"
  by (subst toy_handleRequest)
     (simp_all add: slowConfig_facts slow_fresh admit_def checkRateLimit_def Let_def
       slowStore_def store_simps powRequest_def orEmpty_def nonceEntry_def rateEntry_def)

lemma late_3:
  "handleRequest toyCrypto
     (slowStore [nonceEntry ''1000:n1'' 1000, nonceEntry ''1059:n2'' 60000,
                 rateEntry ''1.2.3.4'' 2 60000])
     1060500 61500 (powRequest ''1060'' ''n3'' ''1.2.3.4'') =
     (Some \<lparr>status = 429, message = ''Rate limit exceeded''\<rparr>,
      slowStore [nonceEntry ''1000:n1'' 1000, nonceEntry ''1059:n2'' 60000,
                 nonceEntry ''1060:n3'' 61500, rateEntry ''1.2.3.4'' 2 60000])"
  by (subst toy_handleRequest)
     (simp_all add: slowConfig_facts slow_fresh admit_def checkRateLimit_def Let_def
       slowStore_def store_simps powRequest_def orEmpty_def nonceEntry_def rateEntry_def)

text \<open>
  With two requests per minute, a caller admitted at the cache-clock readings 1000 and
  60000 is rejected at 61500, more than 60 seconds after the first increment: the second
  admission restarted the lifetime of the counter.
\<close>

lemma limited_past_the_window:
  "fst (serve toyCrypto slowEdge
          [(1000000, 1000, powRequest ''1000'' ''n1'' ''1.2.3.4''),
           (1059000, 60000, powRequest ''1059'' ''n2'' ''1.2.3.4''),
           (1060500, 61500, powRequest ''1060'' ''n3'' ''1.2.3.4'')]) =
     [None, None, Some \<lparr>status = 429, message = ''Rate limit exceeded''\<rparr>]"
  by (simp only: slowEdge_store serve.simps late_1 late_2 late_3 Let_def prod.case fst_conv)

theorem rate_window_restarts_on_admission_witness:
  "\<not> fst (checkRateLimit (slowStore []) 1000 ''1.2.3.4'') \<and>
   liveCount (nonceCache (snd (checkRateLimit (slowStore []) 1000 ''1.2.3.4''))) 61000
     ''1.2.3.4'' = 1 \<and>
   liveCount (nonceCache (snd (checkRateLimit (slowStore []) 1000 ''1.2.3.4''))) 61001
     ''1.2.3.4'' = 0 \<and>
   fst (checkRateLimit (slowStore [rateEntry ''1.2.3.4'' 2 60000]) 61500 ''1.2.3.4'') \<and>
   liveCount (nonceCache (snd (checkRateLimit (slowStore [rateEntry ''1.2.3.4'' 2 60000]) 61500
     ''1.2.3.4''))) 120001 ''1.2.3.4'' = 0 \<and>
   60000 < (61500::nat) - 1000 \<and>
   fst (serve toyCrypto slowEdge
          [(1000000, 1000, powRequest ''1000'' ''n1'' ''1.2.3.4''),
           (1059000, 60000, powRequest ''1059'' ''n2'' ''1.2.3.4''),
           (1060500, 61500, powRequest ''1060'' ''n3'' ''1.2.3.4'')]) =
     [None, None, Some \<lparr>status = 429, message = ''Rate limit exceeded''\<rparr>]"
proof -
  have c0: "liveCount (nonceCache (slowStore [])) 1000 ''1.2.3.4'' = 0"
    by (simp add: liveCount_def slowStore_def store_simps)
  have c2: "liveCount (nonceCache (slowStore [rateEntry ''1.2.3.4'' 2 60000])) 61500 ''1.2.3.4'' = 2"
           "liveCount (nonceCache (slowStore [rateEntry ''1.2.3.4'' 2 60000])) 120001 ''1.2.3.4'' = 0"
    by (simp_all add: liveCount_def slowStore_def rateEntry_def store_simps)
  show ?thesis
    using rate_window_restarts_on_admission [of "slowStore []" 1000 "''1.2.3.4''"]
      rate_window_restarts_on_admission [of "slowStore [rateEntry ''1.2.3.4'' 2 60000]" 61500
        "''1.2.3.4''"]
      limited_past_the_window
    by (simp add: c0 c2 slowConfig_facts)
qed

section \<open>One store for the nonce keys and the counters\<close>



section \<open>The shared store on concrete requests\<close>




lemma edge_cache: "nonceCache edge = \<lparr>lru_items = [], lru_max = 10000, lru_ttl = 30000\<rparr>"
  by (simp add: edge_def LRUCache_new_def)

lemma edge_fresh:
  "\<not> timestampRejected (config edge) 1001000 ''1000''"
  "\<not> timestampRejected (config edge) 1030000 ''1000''"
  "timestampRejected (config edge) 1031000 ''1000''"
  by (simp_all add: timestampRejected_def edge_tolerance parseInt_examples)

lemma replayed_first:
  "handleRequest toyCrypto edge 1000000 5 replayed = (None, afterFirst)"
  unfolding replayed_def afterFirst_def
  by (subst toy_handleRequest)
     (simp_all add: edge_facts edge_cache admit_def checkRateLimit_def Let_def
       lru_has_def lru_get_def lru_set_def lookupEntry_def without_def isStale_def toNumber_def
       powRequest_def orEmpty_def nonceEntry_def rateEntry_def)

lemma replayed_ok: "proofOK toyCrypto (config edge) 1000000 replayed"
  unfolding replayed_def by (rule toy_proofOK) (simp_all add: edge_facts)

lemma replayed_key:
  "nonceKey replayed = ''1000:n1''" "callerOf replayed = ''1.2.3.4''"
  "orEmpty (headers replayed ''X-Timestamp'') = ''1000''"
  by (simp_all add: replayed_def powRequest_keys)

lemma replayed_passes: "passes toyCrypto edge 1000000 5 replayed"
  using replayed_ok by (simp add: passes_def replayed_key edge_cache lru_has_def lookupEntry_def)

lemma edge_capacity: "orDefault (cacheSize (config edge)) 10000 = 10000"
  by (simp add: edge_def DEFAULT_CONFIG_def orDefault_def)



section \<open>Replay\<close>

text \<open>
  Claim C3, as amended.  Take a validator after any sequence of requests and a request
  that passes steps 1 to 6 on it: it is valid but for replay and rate, and its nonce key
  is not live in the store.  This first submission is admitted, or answered 429 by the
  rate limiter.  When the store has room for two entries or rate limiting is off, it
  leaves the nonce key in the store with the tolerance in milliseconds as its lifetime:
  the key is live as long as the cache clock has advanced by no more than that (and for
  ever when the first submission was made at the clock reading 0), and no longer.  When
  the store has room for one entry only and rate limiting is on, the counter evicts the
  nonce key at once.  On any later state of the validator, a resubmission gets 403 for
  its timestamp if that has gone stale, 403 for the replay if the key is live, and
  otherwise is admitted again (or answered 429 by the rate limiter).
\<close>

theorem replay_then_expiry:
  assumes new: "PowCloudflare_new cfg = Inr w"
    and state: "this = snd (serve cr w history)"
    and pass: "passes cr this d1 p1 req"
    and exact: "exactAt (config w) d1 (orEmpty (headers req ''X-Timestamp''))"
      "exactAt (config w) d2 (orEmpty (headers req ''X-Timestamp''))"
  shows "(fst (handleRequest cr this d1 p1 req) = None \<or>
          fst (handleRequest cr this d1 p1 req) =
            Some \<lparr>status = 429, message = ''Rate limit exceeded''\<rparr>) \<and>
         (2 \<le> orDefault (cacheSize (config w)) 10000 \<or>
          rateLimiting (cloudflare (config w)) \<noteq> Some True \<longrightarrow>
            (lru_has (nonceCache (snd (handleRequest cr this d1 p1 req))) p2 (nonceKey req)
             \<longleftrightarrow> p1 = 0 \<or> p2 - p1 \<le> orDefault (timestampTolerance (config w)) 30 * 1000)) \<and>
         (orDefault (cacheSize (config w)) 10000 = 1 \<and>
          rateLimiting (cloudflare (config w)) = Some True \<longrightarrow>
            \<not> lru_has (nonceCache (snd (handleRequest cr this d1 p1 req))) p2 (nonceKey req)) \<and>
         (\<forall>this2. config this2 = config w \<longrightarrow>
            fst (handleRequest cr this2 d2 p2 req) =
              (if timestampRejected (config w) d2 (orEmpty (headers req ''X-Timestamp''))
               then Some \<lparr>status = 403, message = ''Timestamp expired or invalid''\<rparr>
               else if lru_has (nonceCache this2) p2 (nonceKey req)
               then Some \<lparr>status = 403, message = ''Nonce already used''\<rparr>
               else fst (admit this2 p2 req (nonceKey req))) \<and>
            (fst (admit this2 p2 req (nonceKey req)) = None \<or>
             fst (admit this2 p2 req (nonceKey req)) =
               Some \<lparr>status = 429, message = ''Rate limit exceeded''\<rparr>))"
proof -
  let ?ts = "orEmpty (headers req ''X-Timestamp'')" and ?n = "orEmpty (headers req ''X-Nonce'')"
  let ?c = "orEmpty (headers req ''X-Context'')" and ?s = "orEmpty (headers req ''X-Stamp'')"
  let ?k = "nonceKey req"
  let ?tol = "orDefault (timestampTolerance (config w)) 30"
  let ?this1 = "snd (handleRequest cr this d1 p1 req)"
  let ?N = "\<lparr>e_key = ?k, e_val = JTrue, e_start = p1, e_ttl = ?tol * 1000\<rparr>"
  from reachable_wellFormed [OF new, of cr history]
  have wf: "wellFormed this" and cfg: "config this = config w"
    by (simp_all add: state)
  from wf have m: "lru_max (nonceCache this) = orDefault (cacheSize (config w)) 10000"
    and t: "lru_ttl (nonceCache this) = ?tol * 1000"
    by (simp_all add: wellFormed_def cfg)
  have tp: "0 < ?tol"
    by (rule orDefault_positive) simp
  from pass have ok: "proofOK cr (config w) d1 req"
    by (simp add: passes_def cfg)
  then have pr: "isProtectedEndpoint (config w) (pathname req)"
    and car: "carries req ?ts ?n ?c ?s"
    and st: "sha256 cr (pathname req @ '':'' @ ?ts @ '':'' @ ?n @ '':'' @ ?c) = ?s"
    and df: "hasLeadingZeros ?s (orDefault (difficulty (config w)) 4)"
    by (simp_all add: proofOK_def Let_def)
  have k: "?k = ?ts @ '':'' @ ?n"
    by (simp add: nonceKey_def)
  have ne: "?k \<noteq> rateKey (callerOf req)"
    using ok by (rule nonceKey_not_rateKey)
  have h1: "handleRequest cr this d1 p1 req = admit this p1 req ?k"
    using pass by (rule handleRequest_passes)
  have 1: "fst (handleRequest cr this d1 p1 req) = None \<or>
          fst (handleRequest cr this d1 p1 req) =
            Some \<lparr>status = 429, message = ''Rate limit exceeded''\<rparr>"
    unfolding h1 by (rule admit_result)
  have 2: "lru_has (nonceCache ?this1) p2 ?k \<longleftrightarrow> p1 = 0 \<or> p2 - p1 \<le> ?tol * 1000"
    if two: "2 \<le> orDefault (cacheSize (config w)) 10000 \<or>
             rateLimiting (cloudflare (config w)) \<noteq> Some True"
  proof -
    have l: "lookupEntry (nonceCache ?this1) ?k = Some ?N"
      unfolding h1 using admit_keeps_nonce [OF wf _ ne, of p1] two by (simp add: m cfg t)
    show ?thesis
      using l tp by (auto simp: lru_has_def isStale_def)
  qed
  have 3: "\<not> lru_has (nonceCache ?this1) p2 ?k"
    if "orDefault (cacheSize (config w)) 10000 = 1"
      "rateLimiting (cloudflare (config w)) = Some True"
  proof -
    have nl: "\<not> lru_has (nonceCache this) p1 ?k"
      using pass by (simp add: passes_def)
    have "lru_items (nonceCache ?this1) = [rateEntry (callerOf req) 1 p1]"
      unfolding h1 using admit_one_entry [OF wf _ _ ne nl] that by (simp add: m cfg)
    with ne show ?thesis
      by (simp add: lru_has_def lookupEntry_def rateEntry_rateKey)
  qed
  have 4: "\<forall>this2. config this2 = config w \<longrightarrow>
            fst (handleRequest cr this2 d2 p2 req) =
              (if timestampRejected (config w) d2 ?ts
               then Some \<lparr>status = 403, message = ''Timestamp expired or invalid''\<rparr>
               else if lru_has (nonceCache this2) p2 ?k
               then Some \<lparr>status = 403, message = ''Nonce already used''\<rparr>
               else fst (admit this2 p2 req ?k)) \<and>
            (fst (admit this2 p2 req ?k) = None \<or>
             fst (admit this2 p2 req ?k) =
               Some \<lparr>status = 429, message = ''Rate limit exceeded''\<rparr>)"
    using handleRequest_stages [of _ req ?ts ?n ?c ?s cr d2 p2] pr car st df admit_result
    by (simp add: k)
  from 1 2 3 4 show ?thesis by blast
qed

section \<open>Replay on concrete requests\<close>

theorem replay_then_expiry_witness:
  "PowCloudflare_new (Some edgeOptions) = Inr edge \<and>
   passes toyCrypto (snd (serve toyCrypto edge [])) 1000000 5 replayed \<and>
   exactAt (config edge) 1000000 (orEmpty (headers replayed ''X-Timestamp'')) \<and>
   exactAt (config edge) 1001000 (orEmpty (headers replayed ''X-Timestamp'')) \<and>
   exactAt (config edge) 1031000 (orEmpty (headers replayed ''X-Timestamp'')) \<and>
   exactAt (config edge) 1030000 (orEmpty (headers replayed ''X-Timestamp'')) \<and>
   handleRequest toyCrypto (snd (serve toyCrypto edge [])) 1000000 5 replayed =
     (None, afterFirst) \<and>
   lru_has (nonceCache afterFirst) 1005 (nonceKey replayed) \<and>
   fst (handleRequest toyCrypto afterFirst 1001000 1005 replayed) =
     Some \<lparr>status = 403, message = ''Nonce already used''\<rparr> \<and>
   \<not> lru_has (nonceCache afterFirst) 31005 (nonceKey replayed) \<and>
   fst (handleRequest toyCrypto afterFirst 1031000 31005 replayed) =
     Some \<lparr>status = 403, message = ''Timestamp expired or invalid''\<rparr> \<and>
   \<not> lru_has (nonceCache afterFirst) 30006 (nonceKey replayed) \<and>
   fst (handleRequest toyCrypto afterFirst 1030000 30006 replayed) = None"
proof -
  have p: "passes toyCrypto (snd (serve toyCrypto edge [])) 1000000 5 replayed"
    using replayed_passes by simp
  have x: "exactAt (config edge) 1000000 (orEmpty (headers replayed ''X-Timestamp''))"
    "exactAt (config edge) 1001000 (orEmpty (headers replayed ''X-Timestamp''))"
    "exactAt (config edge) 1031000 (orEmpty (headers replayed ''X-Timestamp''))"
    "exactAt (config edge) 1030000 (orEmpty (headers replayed ''X-Timestamp''))"
    by (simp_all add: replayed_key edge_exact)
  have first: "handleRequest toyCrypto (snd (serve toyCrypto edge [])) 1000000 5 replayed =
     (None, afterFirst)"
    by (simp add: replayed_first)
  have cf: "config afterFirst = config edge"
    by (simp add: afterFirst_def)
  note t1 = replay_then_expiry [OF edge_is_constructed refl p x(1) x(2), of 1005, unfolded first]
  note t2 = replay_then_expiry [OF edge_is_constructed refl p x(1) x(3), of 31005, unfolded first]
  note t3 = replay_then_expiry [OF edge_is_constructed refl p x(1) x(4), of 30006, unfolded first]
  have live: "lru_has (nonceCache afterFirst) 1005 (nonceKey replayed)"
    using t1 by (simp add: edge_capacity edge_tolerance)
  have gone: "\<not> lru_has (nonceCache afterFirst) 31005 (nonceKey replayed)"
    "\<not> lru_has (nonceCache afterFirst) 30006 (nonceKey replayed)"
    using t2 t3 by (simp_all add: edge_capacity edge_tolerance)
  have again: "fst (admit afterFirst 30006 replayed (nonceKey replayed)) = None"
    by (simp add: replayed_key admit_def checkRateLimit_def Let_def afterFirst_def edge_facts
        lru_get_def lru_set_def lookupEntry_def without_def isStale_def toNumber_def
        replayed_def powRequest_def orEmpty_def nonceEntry_def rateEntry_def)
  have second: "fst (handleRequest toyCrypto afterFirst 1001000 1005 replayed) =
     Some \<lparr>status = 403, message = ''Nonce already used''\<rparr>"
    using t1 live cf by (simp add: replayed_key edge_fresh)
  have third: "fst (handleRequest toyCrypto afterFirst 1031000 31005 replayed) =
     Some \<lparr>status = 403, message = ''Timestamp expired or invalid''\<rparr>"
    using t2 cf by (simp add: replayed_key edge_fresh)
  have fourth: "fst (handleRequest toyCrypto afterFirst 1030000 30006 replayed) = None"
    using t3 gone(2) cf again by (simp add: replayed_key edge_fresh)
  from edge_is_constructed p x first live second gone third fourth show ?thesis
    by simp
qed

text \<open>
  The claim as written fails: the pair that was admitted at second 1000 and rejected as a
  replay at second 1001 is not admitted again once the window has elapsed; at second 1031
  its entry has expired (the cache clock has advanced by 31000 ms), and the request is
  rejected because its timestamp is stale.
\<close>

theorem resubmission_after_window_is_stale:
  "30000 < (31005::nat) - 5 \<and>
   \<not> lru_has (nonceCache afterFirst) 31005 (nonceKey replayed) \<and>
   fst (serve toyCrypto edge
          [(1000000, 5, replayed), (1001000, 1005, replayed), (1031000, 31005, replayed)]) =
     [None, Some \<lparr>status = 403, message = ''Nonce already used''\<rparr>,
      Some \<lparr>status = 403, message = ''Timestamp expired or invalid''\<rparr>]"
proof -
  have cf: "config afterFirst = config edge"
    by (simp add: afterFirst_def)
  have p: "isProtectedEndpoint (config afterFirst) (pathname replayed)"
    by (simp add: cf replayed_def edge_protects)
  have c: "carries replayed ''1000'' ''n1'' ''c'' ''0a/api/data:1000:n1:c''"
    using powRequest_carries [of "''1000''" "''n1''" "''1.2.3.4''"] by (simp add: replayed_def)
  have live: "lru_has (nonceCache afterFirst) 1005 (''1000'' @ '':'' @ ''n1'')"
    by (simp add: afterFirst_def lru_has_def lookupEntry_def isStale_def nonceEntry_def)
  have gone: "\<not> lru_has (nonceCache afterFirst) 31005 (nonceKey replayed)"
    by (simp add: replayed_key afterFirst_def lru_has_def lookupEntry_def isStale_def
        nonceEntry_def)
  have 2: "handleRequest toyCrypto afterFirst 1001000 1005 replayed =
             (Some \<lparr>status = 403, message = ''Nonce already used''\<rparr>, afterFirst)"
    using live by (simp add: handleRequest_stages [OF p c] cf edge_fresh)
  have 3: "handleRequest toyCrypto afterFirst 1031000 31005 replayed =
             (Some \<lparr>status = 403, message = ''Timestamp expired or invalid''\<rparr>, afterFirst)"
    by (simp add: handleRequest_stages [OF p c] cf edge_fresh)
  have "fst (serve toyCrypto edge
          [(1000000, 5, replayed), (1001000, 1005, replayed), (1031000, 31005, replayed)]) =
     [None, Some \<lparr>status = 403, message = ''Nonce already used''\<rparr>,
      Some \<lparr>status = 403, message = ''Timestamp expired or invalid''\<rparr>]"
    by (simp only: serve.simps replayed_first 2 3 Let_def prod.case fst_conv)
  with gone show ?thesis by simp
qed

section \<open>The limit of a caller\<close>


section \<open>A run of two callers\<close>








section \<open>The limit of a caller on concrete runs\<close>



end
